theory Spec2Isabelle
  imports Main "HOL-Library.AList" "HOL-Library.Sublist"
begin

section \<open>Text as Python sees it\<close>

text \<open>
  A Python \<open>str\<close> is modelled as a HOL \<open>string\<close>; a character stands for a code point
  below 256. \<open>isspace\<close> lists the code points of that range for which Python's
  \<open>str.isspace\<close> holds; \<open>strip\<close> is \<open>str.strip()\<close> with no argument. A string is
  truthy in Python exactly when it is not empty.
\<close>

definition LF :: char where
  "LF = CHR 0x0A"

definition CR :: char where
  "CR = CHR 0x0D"

definition isspace :: "char \<Rightarrow> bool" where
  "isspace c = (of_char c \<in> set [9, 10, 11, 12, 13, 28, 29, 30, 31, 32, 133, 160 :: nat])"

definition strip :: "string \<Rightarrow> string" where
  "strip s = rev (dropWhile isspace (rev (dropWhile isspace s)))"

text \<open>
  Files are opened in text mode with the default \<open>newline=None\<close>: on reading, the
  sequences CR LF and CR are handed to the program as LF. On writing, a line feed is
  stored as it is (a POSIX system).
\<close>

fun universal_newlines :: "string \<Rightarrow> string" where
  "universal_newlines [] = []"
| "universal_newlines [c] = (if c = CR then [LF] else [c])"
| "universal_newlines (c # d # cs) =
     (if c = CR then
        (if d = LF then LF # universal_newlines cs else LF # universal_newlines (d # cs))
      else c # universal_newlines (d # cs))"

text \<open>\<open>file.readline()\<close> on a freshly opened file: the first line with its terminator.\<close>

fun readline :: "string \<Rightarrow> string" where
  "readline [] = []"
| "readline (c # cs) = (if c = LF then [c] else c # readline cs)"

section \<open>The file system\<close>

text \<open>
  The file system is an association list from paths, spelled as the program spells them
  (relative to the working directory, whose own path is the empty string), to nodes.
  A directory carries one flag: whether entries may be created in it. A regular file
  carries two flags, readable and writable, and its contents. Paths are compared as
  strings apart from one trailing separator; the model does not resolve \<open>.\<close>, \<open>..\<close>,
  doubled separators or links.
\<close>

type_synonym path = string

datatype py_error =
    FileNotFoundError
  | PermissionError
  | IsADirectoryError
  | NotADirectoryError
  | FileExistsError
  | AttributeError

datatype node = Dir bool | File bool bool string

type_synonym filesystem = "(path \<times> node) list"

definition ends_with_sep :: "path \<Rightarrow> bool" where
  "ends_with_sep p = (p \<noteq> [] \<and> last p = CHR ''/'')"

definition strip_sep :: "path \<Rightarrow> path" where
  "strip_sep p = (if ends_with_sep p then butlast p else p)"

definition parent_dir :: "path \<Rightarrow> path" where
  "parent_dir p = rev (drop 1 (dropWhile (\<lambda>c. c \<noteq> CHR ''/'') (rev (strip_sep p))))"

definition stat :: "filesystem \<Rightarrow> path \<Rightarrow> py_error + node" where
  "stat f p =
     (case map_of f (strip_sep p) of
        None \<Rightarrow> Inl FileNotFoundError
      | Some (Dir c) \<Rightarrow> Inr (Dir c)
      | Some (File r w s) \<Rightarrow>
          if ends_with_sep p then Inl NotADirectoryError else Inr (File r w s))"

definition os_path_exists :: "filesystem \<Rightarrow> path \<Rightarrow> bool" where
  "os_path_exists f p = (case stat f p of Inl e \<Rightarrow> False | Inr n \<Rightarrow> True)"

definition os_path_isfile :: "filesystem \<Rightarrow> path \<Rightarrow> bool" where
  "os_path_isfile f p =
     (case stat f p of Inl e \<Rightarrow> False | Inr (Dir c) \<Rightarrow> False | Inr (File r w s) \<Rightarrow> True)"

definition os_path_join :: "path \<Rightarrow> path \<Rightarrow> path" where
  "os_path_join a b =
     (if b \<noteq> [] \<and> hd b = CHR ''/'' then b
      else if a = [] \<or> ends_with_sep a then a @ b
      else a @ ''/'' @ b)"

text \<open>
  The name under which key \<open>k\<close> is an entry of directory \<open>d\<close>, if it is one: \<open>k\<close> is
  \<open>d\<close>, a separator and a non-empty name with no separator in it.
\<close>

definition entry_name :: "path \<Rightarrow> path \<Rightarrow> string option" where
  "entry_name d k =
     (let pre = strip_sep d @ ''/''; n = drop (length pre) k
      in if take (length pre) k = pre \<and> n \<noteq> [] \<and> CHR ''/'' \<notin> set n
         then Some n else None)"

definition os_listdir :: "filesystem \<Rightarrow> path \<Rightarrow> py_error + string list" where
  "os_listdir f d =
     (case stat f d of
        Inl e \<Rightarrow> Inl e
      | Inr (File r w s) \<Rightarrow> Inl NotADirectoryError
      | Inr (Dir c) \<Rightarrow> Inr (List.map_filter (\<lambda>(k, n). entry_name d k) f))"

text \<open>
  Creating an entry needs its parent directory, with creation allowed there.
\<close>

definition create_in_parent :: "filesystem \<Rightarrow> path \<Rightarrow> node \<Rightarrow> py_error + filesystem" where
  "create_in_parent f p n =
     (case stat f (parent_dir p) of
        Inl e \<Rightarrow> Inl e
      | Inr (File r w s) \<Rightarrow> Inl NotADirectoryError
      | Inr (Dir c) \<Rightarrow>
          if c then Inr (AList.update (strip_sep p) n f) else Inl PermissionError)"

text \<open>
  \<open>open(p, 'w')\<close> or \<open>open(p, 'a')\<close> followed by one \<open>write(s)\<close> and the close: mode
  \<open>'w'\<close> truncates, mode \<open>'a'\<close> keeps the contents and writes after them; both create
  a missing file.
\<close>

definition fs_put :: "bool \<Rightarrow> filesystem \<Rightarrow> path \<Rightarrow> string \<Rightarrow> py_error + filesystem" where
  "fs_put keep f p s =
     (case stat f p of
        Inr (Dir c) \<Rightarrow> Inl IsADirectoryError
      | Inr (File r w old) \<Rightarrow>
          if w then Inr (AList.update p (File r w ((if keep then old else []) @ s)) f)
          else Inl PermissionError
      | Inl e \<Rightarrow>
          if e = NotADirectoryError then Inl NotADirectoryError
          else if ends_with_sep p then Inl IsADirectoryError
          else create_in_parent f p (File True True s))"

text \<open>\<open>open(p, 'r')\<close> followed by \<open>read()\<close>.\<close>

definition fs_get :: "filesystem \<Rightarrow> path \<Rightarrow> py_error + string" where
  "fs_get f p =
     (case stat f p of
        Inl e \<Rightarrow> Inl e
      | Inr (Dir c) \<Rightarrow> Inl IsADirectoryError
      | Inr (File r w s) \<Rightarrow> if r then Inr (universal_newlines s) else Inl PermissionError)"

text \<open>
  \<open>os.makedirs(p)\<close> for a path of one component, which is the only way the program
  calls it: one \<open>mkdir\<close>, no ancestor to create.
\<close>

definition fs_makedirs :: "filesystem \<Rightarrow> path \<Rightarrow> py_error + filesystem" where
  "fs_makedirs f p =
     (case stat f p of
        Inr n \<Rightarrow> Inl FileExistsError
      | Inl e \<Rightarrow>
          if e = NotADirectoryError then Inl FileExistsError
          else create_in_parent f p (Dir True))"

section \<open>The world: files, time, session state and what was done\<close>

datatype role = USER | ASSISTANT

text \<open>
  Every file open, sleep and display call of the program is recorded, in order, with its
  outcome.
\<close>

datatype event =
    OpenWrite path string "py_error option"
  | OpenAppend path string "py_error option"
  | OpenRead path "py_error + string"
  | MakeDirs path "py_error option"
  | Sleep nat
  | StError string py_error
  | ChatMessage role string

record exchange =
  question :: string
  answer :: string

text \<open>
  \<open>conversation\<close> and \<open>chat_memory\<close> are the two keys of \<open>st.session_state\<close>; \<open>None\<close>
  is an absent key.
\<close>

record world =
  fs :: filesystem
  clock :: nat
  events :: "event list"
  conversation :: "string option option"
  chat_memory :: "exchange list option"

definition emit :: "event \<Rightarrow> world \<Rightarrow> world" where
  "emit e w = w\<lparr>events := events w @ [e]\<rparr>"

definition write_file :: "path \<Rightarrow> string \<Rightarrow> world \<Rightarrow> (py_error + unit) \<times> world" where
  "write_file p s w =
     (case fs_put False (fs w) p s of
        Inl e \<Rightarrow> (Inl e, emit (OpenWrite p s (Some e)) w)
      | Inr f \<Rightarrow> (Inr (), emit (OpenWrite p s None) (w\<lparr>fs := f\<rparr>)))"

definition append_file :: "path \<Rightarrow> string \<Rightarrow> world \<Rightarrow> (py_error + unit) \<times> world" where
  "append_file p s w =
     (case fs_put True (fs w) p s of
        Inl e \<Rightarrow> (Inl e, emit (OpenAppend p s (Some e)) w)
      | Inr f \<Rightarrow> (Inr (), emit (OpenAppend p s None) (w\<lparr>fs := f\<rparr>)))"

definition read_file :: "path \<Rightarrow> world \<Rightarrow> (py_error + string) \<times> world" where
  "read_file p w =
     (case fs_get (fs w) p of
        Inl e \<Rightarrow> (Inl e, emit (OpenRead p (Inl e)) w)
      | Inr s \<Rightarrow> (Inr s, emit (OpenRead p (Inr s)) w))"

definition os_makedirs :: "path \<Rightarrow> world \<Rightarrow> (py_error + unit) \<times> world" where
  "os_makedirs p w =
     (case fs_makedirs (fs w) p of
        Inl e \<Rightarrow> (Inl e, emit (MakeDirs p (Some e)) w)
      | Inr f \<Rightarrow> (Inr (), emit (MakeDirs p None) (w\<lparr>fs := f\<rparr>)))"

text \<open>Sequencing of steps that may raise: an exception skips the rest.\<close>

definition and_then ::
  "(world \<Rightarrow> (py_error + 'a) \<times> world) \<Rightarrow> ('a \<Rightarrow> world \<Rightarrow> (py_error + 'b) \<times> world) \<Rightarrow>
   world \<Rightarrow> (py_error + 'b) \<times> world" where
  "and_then m k w = (case m w of (Inl e, w') \<Rightarrow> (Inl e, w') | (Inr x, w') \<Rightarrow> k x w')"

definition return :: "'a \<Rightarrow> world \<Rightarrow> (py_error + 'a) \<times> world" where
  "return x w = (Inr x, w)"

section \<open>The answering engine\<close>

text \<open>
  The engine is another process. It may look at every file and it acts on the response
  slot only: \<open>env k f\<close> is the node it leaves there (or \<open>None\<close>, no file) during the
  sleep of attempt \<open>k\<close>, when the file system is \<open>f\<close>. The engine acts while the
  program sleeps, not between two statements of the program.
\<close>

type_synonym engine = "nat \<Rightarrow> filesystem \<Rightarrow> node option"

definition input_file :: path where
  "input_file = ''src/main/connection/pyinput.txt''"

definition output_file :: path where
  "output_file = ''src/main/connection/scalaoutput.txt''"

definition engine_step :: "engine \<Rightarrow> nat \<Rightarrow> filesystem \<Rightarrow> filesystem" where
  "engine_step env k f =
     (case env k f of
        None \<Rightarrow> AList.delete output_file f
      | Some n \<Rightarrow> AList.update output_file n f)"

definition idle :: engine where
  "idle k f = map_of f output_file"

definition time_sleep :: "engine \<Rightarrow> nat \<Rightarrow> nat \<Rightarrow> world \<Rightarrow> world" where
  "time_sleep env attempt secs w =
     emit (Sleep secs) (w\<lparr>fs := engine_step env attempt (fs w), clock := clock w + secs\<rparr>)"

section \<open>communicate_with_scala\<close>

definition max_retries :: nat where
  "max_retries = 3"

definition retry_delay :: nat where
  "retry_delay = 2"

definition fallback_message :: string where
  "fallback_message =
     ''I'' @ [CHR 0x27] @ ''m having trouble processing that. Could you try again?''"

definition st_error :: "string \<Rightarrow> py_error \<Rightarrow> world \<Rightarrow> world" where
  "st_error msg e w = emit (StError msg e) w"

text \<open>
  The body of the inner \<open>try\<close>: read the response slot, strip it, and when the result is
  not empty clear the slot and hand the result back. \<open>Inr None\<close> is falling out of the
  \<open>with\<close> block without returning; \<open>Inl e\<close> is an exception raised by either open.
\<close>

definition read_output :: "world \<Rightarrow> (py_error + string option) \<times> world" where
  "read_output w =
     (case read_file output_file w of
        (Inl e, w1) \<Rightarrow> (Inl e, w1)
      | (Inr text, w1) \<Rightarrow>
          (let scala_output = strip text in
           if scala_output \<noteq> [] then
             (case write_file output_file [] w1 of
                (Inl e, w2) \<Rightarrow> (Inl e, w2)
              | (Inr u, w2) \<Rightarrow> (Inr (Some scala_output), w2))
           else (Inr None, w1)))"

text \<open>The \<open>for attempt in range(max_retries)\<close> loop, over the attempts still to run.\<close>

fun retry_loop :: "engine \<Rightarrow> nat list \<Rightarrow> world \<Rightarrow> string \<times> world" where
  "retry_loop env [] w = (fallback_message, w)"
| "retry_loop env (attempt # rest) w =
     (case read_output (time_sleep env attempt retry_delay w) of
        (Inr (Some scala_output), w2) \<Rightarrow> (scala_output, w2)
      | (Inr None, w2) \<Rightarrow> retry_loop env rest w2
      | (Inl e, w2) \<Rightarrow>
          if attempt = max_retries - 1
          then (fallback_message, st_error ''Error reading Scala response: '' e w2)
          else retry_loop env rest w2)"

text \<open>
  Inside the outer \<open>try\<close> only the write of the request can raise: the loop catches
  what its body raises.
\<close>

definition communicate_with_scala :: "engine \<Rightarrow> string \<Rightarrow> world \<Rightarrow> string \<times> world" where
  "communicate_with_scala env user_input w =
     (case write_file input_file (user_input @ [LF]) w of
        (Inl e, w1) \<Rightarrow>
          (fallback_message, st_error ''Error communicating with backend: '' e w1)
      | (Inr u, w1) \<Rightarrow> retry_loop env [0..<max_retries] w1)"

section \<open>The chat interface of main\<close>

text \<open>
  The branch of \<open>main\<close> for the page "Chat Interface". The page set-up, the sidebar and
  the analytics page only display and are left out; so is \<open>st.spinner\<close>.
\<close>

definition list_files_in_folder :: "filesystem \<Rightarrow> path \<Rightarrow> py_error + string list" where
  "list_files_in_folder f folder_path =
     (case os_listdir f folder_path of
        Inl e \<Rightarrow> Inl e
      | Inr names \<Rightarrow>
          Inr (filter (\<lambda>file. os_path_isfile f (os_path_join folder_path file)) names))"

definition conversations_dir :: path where
  "conversations_dir = ''conversations/''"

definition current_chat_file :: path where
  "current_chat_file = conversations_dir @ ''currentchat.txt''"

definition first_chat_file :: path where
  "first_chat_file = conversations_dir @ ''chathistory_0.txt''"

text \<open>
  The store set-up of \<open>main\<close>, one definition for each of its commented steps: the
  directory, the tracker of the current chat, the listing with the first chat file, and
  the name read back from the tracker. No step is inside a \<open>try\<close>, so what a step
  raises ends the run.
\<close>

definition create_conversations_dir :: "world \<Rightarrow> (py_error + unit) \<times> world" where
  "create_conversations_dir w =
     (if \<not> os_path_exists (fs w) conversations_dir
      then os_makedirs conversations_dir w else return () w)"

definition create_current_chat_file :: "world \<Rightarrow> (py_error + unit) \<times> world" where
  "create_current_chat_file w =
     (if \<not> os_path_exists (fs w) current_chat_file
      then write_file current_chat_file ''chathistory_0.txt'' w else return () w)"

text \<open>
  \<open>conversation_files\<close> is the listing without the tracker; \<open>list.remove\<close> takes out
  the first occurrence and is called only when there is one.
\<close>

definition create_first_chat_file :: "world \<Rightarrow> (py_error + unit) \<times> world" where
  "create_first_chat_file w =
     (case list_files_in_folder (fs w) conversations_dir of
        Inl e \<Rightarrow> (Inl e, w)
      | Inr listed \<Rightarrow>
          (let conversation_files =
                 (if ''currentchat.txt'' \<in> set listed
                  then remove1 ''currentchat.txt'' listed else listed)
           in if length conversation_files = 0
              then write_file first_chat_file [] w else return () w))"

definition get_current_chat :: "world \<Rightarrow> (py_error + string) \<times> world" where
  "get_current_chat =
     and_then (read_file current_chat_file) (\<lambda>body. return (strip (readline body)))"

definition init_store :: "world \<Rightarrow> (py_error + string) \<times> world" where
  "init_store =
     and_then create_conversations_dir (\<lambda>u.
     and_then create_current_chat_file (\<lambda>u.
     and_then create_first_chat_file (\<lambda>u.
     get_current_chat)))"

definition init_session :: "world \<Rightarrow> world" where
  "init_session w =
     w\<lparr>conversation := (case conversation w of None \<Rightarrow> Some None | Some c \<Rightarrow> Some c),
       chat_memory := (case chat_memory w of None \<Rightarrow> Some [] | Some m \<Rightarrow> Some m)\<rparr>"

fun show_interactions :: "exchange list \<Rightarrow> world \<Rightarrow> world" where
  "show_interactions [] w = w"
| "show_interactions (interaction # rest) w =
     show_interactions rest
       (emit (ChatMessage ASSISTANT (answer interaction))
          (emit (ChatMessage USER (question interaction)) w))"

definition show_chat_memory :: "world \<Rightarrow> (py_error + unit) \<times> world" where
  "show_chat_memory w =
     (case chat_memory w of
        None \<Rightarrow> (Inl AttributeError, w)
      | Some m \<Rightarrow> (Inr (), show_interactions m w))"

text \<open>
  The \<open>if user_question:\<close> block. \<open>st.chat_input\<close> gives \<open>None\<close> until the user submits
  a text.
\<close>

definition handle_question ::
  "engine \<Rightarrow> string option \<Rightarrow> string \<Rightarrow> world \<Rightarrow> (py_error + unit) \<times> world" where
  "handle_question env user_question current_chat w =
     (case user_question of
        None \<Rightarrow> (Inr (), w)
      | Some q \<Rightarrow>
          if q = [] then (Inr (), w)
          else
            (case communicate_with_scala env q w of
               (response, w1) \<Rightarrow>
                 (let w2 = emit (ChatMessage USER q) w1;
                      w3 = emit (ChatMessage ASSISTANT response) w2
                  in case chat_memory w3 of
                       None \<Rightarrow> (Inl AttributeError, w3)
                     | Some m \<Rightarrow>
                         append_file (conversations_dir @ current_chat) (q @ [LF])
                           (w3\<lparr>chat_memory :=
                                 Some (m @ [\<lparr>question = q, answer = response\<rparr>])\<rparr>))))"

definition main_chat_interface ::
  "engine \<Rightarrow> string option \<Rightarrow> world \<Rightarrow> (py_error + unit) \<times> world" where
  "main_chat_interface env user_question =
     and_then (\<lambda>w. return () (init_session w)) (\<lambda>u.
     and_then init_store (\<lambda>current_chat.
     and_then show_chat_memory (\<lambda>u.
     handle_question env user_question current_chat)))"

section \<open>Reading the record of a call\<close>

text \<open>
  One pass of the loop leaves a sleep and a read of the response slot in the record, and
  after a read of text that is not blank the attempt to clear the slot.
  \<open>attempt_shape\<close> recognises these records; \<open>attempt_value\<close> is the value the pass
  handed back, which needs the clearing write to have succeeded.
\<close>

definition attempt_shape :: "event list \<Rightarrow> bool" where
  "attempt_shape it =
     (case it of
        [Sleep d, OpenRead p (Inl e)] \<Rightarrow> d = retry_delay \<and> p = output_file
      | [Sleep d, OpenRead p (Inr text)] \<Rightarrow>
          d = retry_delay \<and> p = output_file \<and> strip text = []
      | [Sleep d, OpenRead p (Inr text), OpenWrite q s c] \<Rightarrow>
          d = retry_delay \<and> p = output_file \<and> strip text \<noteq> [] \<and> q = output_file \<and> s = []
      | _ \<Rightarrow> False)"

definition attempt_value :: "event list \<Rightarrow> string option" where
  "attempt_value it =
     (case it of
        [Sleep d, OpenRead p (Inr text), OpenWrite q s None] \<Rightarrow> Some (strip text)
      | _ \<Rightarrow> None)"

text \<open>
  The events a run added to the record, and what the claims ask of them: a read of the
  response slot (\<open>polled\<close>), one that saw text that is not blank (\<open>saw_response\<close>),
  a write to the response slot (\<open>wrote_output\<close>).
\<close>

definition new_events :: "world \<Rightarrow> world \<Rightarrow> event list" where
  "new_events w w' = drop (length (events w)) (events w')"

definition saw_response :: "event \<Rightarrow> bool" where
  "saw_response e =
     (case e of OpenRead p (Inr body) \<Rightarrow> p = output_file \<and> strip body \<noteq> [] | _ \<Rightarrow> False)"

definition wrote_output :: "event \<Rightarrow> bool" where
  "wrote_output e = (case e of OpenWrite p s c \<Rightarrow> p = output_file | _ \<Rightarrow> False)"




section \<open>What the claims say of the store\<close>

text \<open>
  \<open>preserved f f'\<close>: every path of \<open>f\<close> has in \<open>f'\<close> the node it had. \<open>append_only f f'\<close>:
  every regular file of \<open>f\<close> other than the two slots is in \<open>f'\<close> with its flags, its
  old contents a prefix of the new. \<open>store_ready\<close>: the directory and the tracker are
  there and the listing shows a chat file. \<open>log_text\<close>: the contents of a conversation
  file, empty when there is none. \<open>shown_error\<close>: an \<open>st.error\<close> call.
\<close>

definition preserved :: "filesystem \<Rightarrow> filesystem \<Rightarrow> bool" where
  "preserved f f' = (\<forall>k\<in>set (map fst f). map_of f' k = map_of f k)"

definition store_ready :: "filesystem \<Rightarrow> bool" where
  "store_ready f =
     (os_path_exists f conversations_dir \<and> os_path_exists f current_chat_file \<and>
      (case list_files_in_folder f conversations_dir of
         Inl e \<Rightarrow> False
       | Inr listed \<Rightarrow>
           (if ''currentchat.txt'' \<in> set listed
            then remove1 ''currentchat.txt'' listed else listed) \<noteq> []))"

definition log_text :: "filesystem \<Rightarrow> path \<Rightarrow> string" where
  "log_text f p = (case stat f p of Inr (File r w s) \<Rightarrow> s | _ \<Rightarrow> [])"

definition append_only :: "filesystem \<Rightarrow> filesystem \<Rightarrow> bool" where
  "append_only f f' =
     (\<forall>k\<in>set (map fst f). k = input_file \<or> k = output_file \<or>
        (case map_of f k of
           Some (File r w old) \<Rightarrow>
             (case map_of f' k of
                Some (File r' w' new) \<Rightarrow> r' = r \<and> w' = w \<and> prefix old new
              | _ \<Rightarrow> False)
         | _ \<Rightarrow> True))"

definition shown_error :: "event \<Rightarrow> bool" where
  "shown_error e = (case e of StError m x \<Rightarrow> True | _ \<Rightarrow> False)"





section \<open>Sample worlds\<close>

text \<open>A world whose response slot holds an answer; the store is not set up yet.\<close>

definition demo_fs :: filesystem where
  "demo_fs =
     [([], Dir True),
      (''src/main/connection'', Dir True),
      (output_file, File True True ''  Jaws (1975)  '')]"

definition demo_world :: world where
  "demo_world =
     \<lparr>fs = demo_fs, clock = 0, events = [], conversation = None, chat_memory = None\<rparr>"

text \<open>A world with nothing but the working directory: the channel folder is missing.\<close>

definition bare_world :: world where
  "bare_world =
     \<lparr>fs = [([], Dir True)], clock = 0, events = [], conversation = Some None,
      chat_memory = Some []\<rparr>"

text \<open>
  A world whose engine has written nothing: the response slot is empty, the store is set
  up and its first chat file holds one earlier question.
\<close>

definition quiet_world :: world where
  "quiet_world =
     \<lparr>fs = [([], Dir True),
            (''src/main/connection'', Dir True),
            (output_file, File True True []),
            (''conversations'', Dir True),
            (''conversations/currentchat.txt'', File True True ''chathistory_0.txt''),
            (''conversations/chathistory_0.txt'', File True True (''What is Jaws?'' @ [LF]))],
      clock = 0, events = [], conversation = Some None, chat_memory = Some []\<rparr>"

text \<open>The quiet world with a first chat file that cannot be written, and a fresh session.\<close>

definition readonly_log_world :: world where
  "readonly_log_world =
     \<lparr>fs = [([], Dir True),
            (''src/main/connection'', Dir True),
            (output_file, File True True []),
            (''conversations'', Dir True),
            (''conversations/currentchat.txt'', File True True ''chathistory_0.txt''),
            (''conversations/chathistory_0.txt'', File True False (''What is Jaws?'' @ [LF]))],
      clock = 0, events = [], conversation = None, chat_memory = None\<rparr>"


section \<open>Facts about the file system\<close>

lemma output_file_no_sep: "\<not> ends_with_sep output_file"
  by (simp add: ends_with_sep_def output_file_def)

lemma input_file_no_sep: "\<not> ends_with_sep input_file"
  by (simp add: ends_with_sep_def input_file_def)

lemma strip_sep_output_file: "strip_sep output_file = output_file"
  by (simp add: strip_sep_def output_file_no_sep)

lemma strip_sep_input_file: "strip_sep input_file = input_file"
  by (simp add: strip_sep_def input_file_no_sep)

lemma input_file_neq_output_file: "input_file \<noteq> output_file"
  by (simp add: input_file_def output_file_def)

lemma strip_sep_idem: "\<not> ends_with_sep p \<Longrightarrow> strip_sep p = p"
  by (simp add: strip_sep_def)

lemma stat_update_other: "strip_sep p \<noteq> k \<Longrightarrow> stat (AList.update k n f) p = stat f p"
  by (simp add: stat_def update_conv')

lemma stat_update_file:
  "\<not> ends_with_sep p \<Longrightarrow> stat (AList.update p (File r w s) f) p = Inr (File r w s)"
  by (simp add: stat_def update_conv' strip_sep_def)

lemma stat_File_map_of:
  "stat f p = Inr (File r w s) \<longleftrightarrow> (\<not> ends_with_sep p \<and> map_of f p = Some (File r w s))"
  by (auto simp: stat_def strip_sep_def split: option.splits node.splits if_splits)

lemma create_in_parent_result:
  "create_in_parent f p n = Inr f' \<Longrightarrow> f' = AList.update (strip_sep p) n f"
  by (auto simp: create_in_parent_def split: sum.splits node.splits if_splits)

lemma stat_Inl:
  "stat f p = Inl e \<longleftrightarrow>
     (map_of f (strip_sep p) = None \<and> e = FileNotFoundError) \<or>
     (\<exists>r w s. map_of f (strip_sep p) = Some (File r w s) \<and> ends_with_sep p \<and>
        e = NotADirectoryError)"
  by (auto simp: stat_def split: option.splits node.splits if_splits)

lemma fs_put_result:
  "fs_put keep f p s = Inr f' \<Longrightarrow>
     \<not> ends_with_sep p \<and>
     ((\<exists>r old. map_of f p = Some (File r True old) \<and>
         f' = AList.update p (File r True ((if keep then old else []) @ s)) f) \<or>
      (map_of f p = None \<and> f' = AList.update p (File True True s) f))"
  apply (cases "stat f p")
  subgoal for e
    by (auto simp: fs_put_def stat_Inl strip_sep_idem dest!: create_in_parent_result
        split: if_splits)
  subgoal for n
    by (cases n) (auto simp: fs_put_def stat_File_map_of split: if_splits)
  done

lemma fs_put_existing:
  "stat f p = Inr (File r True old) \<Longrightarrow>
     fs_put keep f p s = Inr (AList.update p (File r True ((if keep then old else []) @ s)) f)"
  by (simp add: fs_put_def)

section \<open>Facts about one pass and about the loop\<close>

lemma attempt_shape_simps:
  "attempt_shape [Sleep d, OpenRead p (Inl e)] = (d = retry_delay \<and> p = output_file)"
  "attempt_shape [Sleep d, OpenRead p (Inr text)] =
     (d = retry_delay \<and> p = output_file \<and> strip text = [])"
  "attempt_shape [Sleep d, OpenRead p (Inr text), OpenWrite q s c] =
     (d = retry_delay \<and> p = output_file \<and> strip text \<noteq> [] \<and> q = output_file \<and> s = [])"
  by (simp_all add: attempt_shape_def)

lemma attempt_value_simps:
  "attempt_value [Sleep d, OpenRead p r] = None"
  "attempt_value [Sleep d, OpenRead p (Inr text), OpenWrite q s None] = Some (strip text)"
  "attempt_value [Sleep d, OpenRead p (Inr text), OpenWrite q s (Some e)] = None"
  by (simp_all add: attempt_value_def split: sum.splits)

lemma fs_get_Inr:
  "fs_get f p = Inr text \<longleftrightarrow>
     (\<exists>w s. stat f p = Inr (File True w s) \<and> text = universal_newlines s)"
  by (auto simp: fs_get_def split: sum.splits node.splits)

lemma read_output_cases:
  obtains
    (unreadable) e where "fs_get (fs w) output_file = Inl e"
      "read_output w = (Inl e, emit (OpenRead output_file (Inl e)) w)"
  | (blank) body where "fs_get (fs w) output_file = Inr body" "strip body = []"
      "read_output w = (Inr None, emit (OpenRead output_file (Inr body)) w)"
  | (unclearable) body e where "fs_get (fs w) output_file = Inr body" "strip body \<noteq> []"
      "fs_put False (fs w) output_file [] = Inl e"
      "read_output w =
         (Inl e, emit (OpenWrite output_file [] (Some e)) (emit (OpenRead output_file (Inr body)) w))"
  | (consumed) body f where "fs_get (fs w) output_file = Inr body" "strip body \<noteq> []"
      "fs_put False (fs w) output_file [] = Inr f"
      "read_output w =
         (Inr (Some (strip body)),
          emit (OpenWrite output_file [] None) ((emit (OpenRead output_file (Inr body)) w)\<lparr>fs := f\<rparr>))"
proof (cases "fs_get (fs w) output_file")
  case (Inl e)
  then show ?thesis
    using unreadable by (simp add: read_output_def read_file_def)
next
  case (Inr body)
  show ?thesis
  proof (cases "strip body = []")
    case True
    with Inr show ?thesis
      using blank by (simp add: read_output_def read_file_def)
  next
    case False
    show ?thesis
    proof (cases "fs_put False (fs w) output_file []")
      case (Inl e)
      with Inr False show ?thesis
        using unclearable by (simp add: read_output_def read_file_def write_file_def emit_def)
    next
      case r: (Inr f)
      with Inr False show ?thesis
        using consumed by (simp add: read_output_def read_file_def write_file_def emit_def)
    qed
  qed
qed

lemma fs_put_clear_output:
  assumes "fs_get f output_file = Inr text" "fs_put False f output_file [] = Inr f'"
  shows "f' = AList.update output_file (File True True []) f"
proof -
  from assms(1) obtain w s where "stat f output_file = Inr (File True w s)"
    by (auto simp: fs_get_Inr)
  then have m: "map_of f output_file = Some (File True w s)"
    by (simp add: stat_File_map_of)
  from fs_put_result[OF assms(2)] m show ?thesis by auto
qed

lemma fs_get_cleared:
  "fs_get (AList.update output_file (File True True []) f) output_file = Inr []"
  by (simp add: fs_get_def stat_update_file output_file_no_sep)

lemma engine_step_map_of_other:
  "k \<noteq> output_file \<Longrightarrow> map_of (engine_step env a f) k = map_of f k"
  by (simp add: engine_step_def update_conv' delete_conv' split: option.splits)

lemma engine_step_idle: "engine_step idle a f = f"
proof (cases "map_of f output_file")
  case None
  then have "output_file \<notin> fst ` set f"
    by (simp add: map_of_eq_None_iff)
  with None show ?thesis
    by (simp add: engine_step_def idle_def)
next
  case (Some n)
  then show ?thesis
    by (simp add: engine_step_def idle_def update_triv)
qed

lemma time_sleep_fields:
  "fs (time_sleep env a d w) = engine_step env a (fs w)"
  "clock (time_sleep env a d w) = clock w + d"
  "events (time_sleep env a d w) = events w @ [Sleep d]"
  "chat_memory (time_sleep env a d w) = chat_memory w"
  "conversation (time_sleep env a d w) = conversation w"
  by (simp_all add: time_sleep_def emit_def)

lemma emit_fields:
  "fs (emit e w) = fs w"
  "clock (emit e w) = clock w"
  "events (emit e w) = events w @ [e]"
  "chat_memory (emit e w) = chat_memory w"
  "conversation (emit e w) = conversation w"
  by (simp_all add: emit_def)

lemma retry_loop_trace:
  "retry_loop env atts w = (r, w') \<Longrightarrow>
   \<exists>iters tail.
     events w' = events w @ concat iters @ tail \<and>
     length iters \<le> length atts \<and>
     (\<forall>it\<in>set iters. attempt_shape it) \<and>
     (tail = [] \<or> (\<exists>e. tail = [StError ''Error reading Scala response: '' e])) \<and>
     clock w' = clock w + retry_delay * length iters \<and>
     ((r = fallback_message \<and> (\<forall>it\<in>set iters. attempt_value it = None) \<and>
         (length iters = length atts \<or>
          (iters \<noteq> [] \<and> atts ! (length iters - 1) = max_retries - 1))) \<or>
      (iters \<noteq> [] \<and> attempt_value (last iters) = Some r \<and> r \<noteq> [] \<and> tail = [] \<and>
         (\<forall>it\<in>set (butlast iters). attempt_value it = None)))"
proof (induction atts arbitrary: w)
  case Nil
  then have "events w' = events w @ concat [] @ []" "r = fallback_message" "clock w' = clock w"
    by auto
  then show ?case
    by (intro exI[of _ "[]"]) simp
next
  case (Cons a atts)
  let ?ws = "time_sleep env a retry_delay w"
  let ?miss = "\<lambda>it w1.
     events w1 = events w @ it \<and> clock w1 = clock w + retry_delay \<and>
     attempt_shape it \<and> attempt_value it = None"
  have continue: ?case
    if run: "retry_loop env atts w1 = (r, w')" and it: "?miss it w1" for it w1
  proof -
    from Cons.IH[OF run] obtain iters tail where
      ev: "events w' = events w1 @ concat iters @ tail" and
      len: "length iters \<le> length atts" and
      shp: "\<forall>it\<in>set iters. attempt_shape it" and
      tl: "tail = [] \<or> (\<exists>e. tail = [StError ''Error reading Scala response: '' e])" and
      clk: "clock w' = clock w1 + retry_delay * length iters" and
      res: "(r = fallback_message \<and> (\<forall>it\<in>set iters. attempt_value it = None) \<and>
              (length iters = length atts \<or>
               (iters \<noteq> [] \<and> atts ! (length iters - 1) = max_retries - 1))) \<or>
            (iters \<noteq> [] \<and> attempt_value (last iters) = Some r \<and> r \<noteq> [] \<and> tail = [] \<and>
              (\<forall>it\<in>set (butlast iters). attempt_value it = None))"
      by blast
    have 1: "events w' = events w @ concat (it # iters) @ tail"
      using ev it by simp
    have 2: "length (it # iters) \<le> length (a # atts)"
      using len by simp
    have 3: "\<forall>x\<in>set (it # iters). attempt_shape x"
      using shp it by simp
    have 4: "clock w' = clock w + retry_delay * length (it # iters)"
      using clk it by simp
    have 5: "(r = fallback_message \<and> (\<forall>x\<in>set (it # iters). attempt_value x = None) \<and>
              (length (it # iters) = length (a # atts) \<or>
               (it # iters \<noteq> [] \<and> (a # atts) ! (length (it # iters) - 1) = max_retries - 1))) \<or>
            (it # iters \<noteq> [] \<and> attempt_value (last (it # iters)) = Some r \<and> r \<noteq> [] \<and>
              tail = [] \<and> (\<forall>x\<in>set (butlast (it # iters)). attempt_value x = None))"
      using res it by (cases iters) auto
    from 1 2 3 tl 4 5 show ?thesis
      by blast
  qed
  have stop: ?case
    if "r = fallback_message" and "a = max_retries - 1" and
      "events w' = events w @ it @ [StError ''Error reading Scala response: '' e]" and
      "clock w' = clock w + retry_delay" and "attempt_shape it" and "attempt_value it = None"
    for it e
    using that
    by (intro exI[of _ "[it]"] exI[of _ "[StError ''Error reading Scala response: '' e]"]) simp
  show ?case
  proof (cases rule: read_output_cases[of ?ws])
    case (unreadable e)
    let ?it = "[Sleep retry_delay, OpenRead output_file (Inl e)]"
    show ?thesis
    proof (cases "a = max_retries - 1")
      case True
      with unreadable Cons.prems show ?thesis
        by (intro stop[of ?it e])
          (auto simp: st_error_def emit_fields time_sleep_fields attempt_shape_simps
            attempt_value_simps)
    next
      case False
      with unreadable Cons.prems show ?thesis
        by (intro continue[of _ ?it])
          (auto simp: emit_fields time_sleep_fields attempt_shape_simps attempt_value_simps)
    qed
  next
    case (blank body)
    with Cons.prems show ?thesis
      by (intro continue[of _ "[Sleep retry_delay, OpenRead output_file (Inr body)]"])
        (auto simp: emit_fields time_sleep_fields attempt_shape_simps attempt_value_simps)
  next
    case (unclearable body e)
    let ?it = "[Sleep retry_delay, OpenRead output_file (Inr body),
                OpenWrite output_file [] (Some e)]"
    show ?thesis
    proof (cases "a = max_retries - 1")
      case True
      with unclearable Cons.prems show ?thesis
        by (intro stop[of ?it e])
          (auto simp: st_error_def emit_fields time_sleep_fields attempt_shape_simps
            attempt_value_simps)
    next
      case False
      with unclearable Cons.prems show ?thesis
        by (intro continue[of _ ?it])
          (auto simp: emit_fields time_sleep_fields attempt_shape_simps attempt_value_simps)
    qed
  next
    case (consumed body f)
    let ?it = "[Sleep retry_delay, OpenRead output_file (Inr body), OpenWrite output_file [] None]"
    from consumed Cons.prems have
      "r = strip body" "events w' = events w @ concat [?it] @ []"
      "clock w' = clock w + retry_delay * length [?it]"
      by (auto simp: emit_fields time_sleep_fields)
    with consumed(2) show ?thesis
      by (intro exI[of _ "[?it]"] exI[of _ "[]"])
        (simp add: attempt_shape_simps attempt_value_simps)
  qed
qed

lemma read_output_frame:
  assumes "read_output w = (x, w1)"
  shows "chat_memory w1 = chat_memory w \<and> conversation w1 = conversation w \<and>
         clock w1 = clock w \<and> (\<forall>k. k \<noteq> output_file \<longrightarrow> map_of (fs w1) k = map_of (fs w) k)"
proof (cases rule: read_output_cases[of w])
  case (unreadable e)
  with assms show ?thesis by (auto simp: emit_def)
next
  case (blank body)
  with assms show ?thesis by (auto simp: emit_def)
next
  case (unclearable body e)
  with assms show ?thesis by (auto simp: emit_def)
next
  case (consumed body f)
  then have "f = AList.update output_file (File True True []) (fs w)"
    by (simp add: fs_put_clear_output)
  with consumed assms show ?thesis
    by (auto simp: emit_def update_conv')
qed

lemma read_output_consumed:
  assumes "read_output w = (Inr (Some v), w1)"
  shows "v \<noteq> [] \<and> fs w1 = AList.update output_file (File True True []) (fs w) \<and>
         (\<exists>body. fs_get (fs w) output_file = Inr body \<and> v = strip body)"
proof (cases rule: read_output_cases[of w])
  case (unreadable e)
  with assms show ?thesis by simp
next
  case (blank body)
  with assms show ?thesis by simp
next
  case (unclearable body e)
  with assms show ?thesis by simp
next
  case (consumed body f)
  then have "f = AList.update output_file (File True True []) (fs w)"
    by (simp add: fs_put_clear_output)
  with consumed assms show ?thesis
    by (auto simp: emit_def)
qed

lemma read_output_no_value:
  assumes "fs_get (fs w) output_file = Inr body" "strip body = []"
  shows "read_output w = (Inr None, emit (OpenRead output_file (Inr body)) w)"
  using assms by (cases rule: read_output_cases[of w]) auto

lemma read_output_unclearable:
  assumes "fs_get (fs w) output_file = Inr body" "strip body \<noteq> []"
    and "fs_put False (fs w) output_file [] = Inl e"
  shows "fst (read_output w) = Inl e \<and> fs (snd (read_output w)) = fs w"
  using assms by (cases rule: read_output_cases[of w]) (auto simp: emit_def)

lemma strip_Nil: "strip [] = []"
  by (simp add: strip_def)

lemma write_input_keeps_output:
  assumes "write_file input_file s w = (x, w1)"
  shows "map_of (fs w1) output_file = map_of (fs w) output_file"
proof (cases "fs_put False (fs w) input_file s")
  case (Inl e)
  with assms show ?thesis
    by (auto simp: write_file_def emit_def)
next
  case (Inr f)
  from fs_put_result[OF Inr] have "\<exists>n. f = AList.update input_file n (fs w)"
    by auto
  with Inr assms show ?thesis
    using input_file_neq_output_file by (auto simp: write_file_def emit_def update_conv')
qed

lemma fs_get_cong_map_of:
  "map_of f (strip_sep p) = map_of g (strip_sep p) \<Longrightarrow> fs_get f p = fs_get g p"
  by (simp add: fs_get_def stat_def)

lemma retry_loop_idle_empty:
  "fs_get (fs w) output_file = Inr [] \<Longrightarrow> retry_loop idle atts w = (r, w') \<Longrightarrow>
     r = fallback_message \<and> fs w' = fs w \<and>
     (\<forall>body. OpenRead output_file (Inr body) \<in> set (drop (length (events w)) (events w')) \<longrightarrow>
        body = [])"
proof (induction atts arbitrary: w)
  case Nil
  then show ?case by auto
next
  case (Cons a atts)
  let ?ws = "time_sleep idle a retry_delay w"
  let ?w1 = "emit (OpenRead output_file (Inr [])) ?ws"
  have g: "fs_get (fs ?ws) output_file = Inr []"
    using Cons.prems(1) by (simp add: time_sleep_fields engine_step_idle)
  then have ro: "read_output ?ws = (Inr None, ?w1)"
    by (rule read_output_no_value) (rule strip_Nil)
  with Cons.prems(2) have run: "retry_loop idle atts ?w1 = (r, w')"
    by simp
  have g1: "fs_get (fs ?w1) output_file = Inr []"
    using g by (simp add: emit_fields)
  from Cons.IH[OF g1 run] have
    r: "r = fallback_message" and f: "fs w' = fs ?w1" and
    b: "\<forall>body. OpenRead output_file (Inr body) \<in> set (drop (length (events ?w1)) (events w'))
          \<longrightarrow> body = []"
    by auto
  from retry_loop_trace[OF run] obtain rest where ev: "events w' = events ?w1 @ rest"
    by auto
  have "events ?w1 = events w @ [Sleep retry_delay, OpenRead output_file (Inr [])]"
    by (simp add: emit_fields time_sleep_fields)
  with ev b have "\<forall>body. OpenRead output_file (Inr body) \<in> set (drop (length (events w)) (events w'))
          \<longrightarrow> body = []"
    by auto
  with r f show ?case
    by (simp add: emit_fields time_sleep_fields engine_step_idle)
qed

section \<open>Facts about a whole call\<close>

lemma fallback_message_nonempty: "fallback_message \<noteq> []"
  by (simp add: fallback_message_def)

lemma retry_loop_frame:
  "retry_loop env atts w = (r, w') \<Longrightarrow>
     chat_memory w' = chat_memory w \<and> conversation w' = conversation w \<and>
     (\<forall>k. k \<noteq> output_file \<longrightarrow> map_of (fs w') k = map_of (fs w) k)"
proof (induction atts arbitrary: w)
  case Nil
  then show ?case by auto
next
  case (Cons a atts)
  let ?ws = "time_sleep env a retry_delay w"
  obtain x w2 where ro: "read_output ?ws = (x, w2)"
    by (cases "read_output ?ws")
  from read_output_frame[OF ro] have
    fr: "chat_memory w2 = chat_memory w \<and> conversation w2 = conversation w \<and>
         (\<forall>k. k \<noteq> output_file \<longrightarrow> map_of (fs w2) k = map_of (fs w) k)"
    by (simp add: time_sleep_fields engine_step_map_of_other)
  show ?case
  proof (cases "retry_loop env atts w2 = (r, w')")
    case True
    from Cons.IH[OF True] fr show ?thesis
      by simp
  next
    case False
    with Cons.prems ro have "w' = w2 \<or> (\<exists>e. w' = st_error ''Error reading Scala response: '' e w2)"
      by (auto split: sum.splits option.splits if_splits)
    with fr show ?thesis
      by (auto simp: st_error_def emit_fields)
  qed
qed

lemma write_file_ok:
  assumes "write_file p s w = (Inr u, w1)"
  shows "\<exists>f rd. fs_put False (fs w) p s = Inr f \<and> w1 = emit (OpenWrite p s None) (w\<lparr>fs := f\<rparr>) \<and>
           stat f p = Inr (File rd True s)"
proof -
  from assms obtain f where f: "fs_put False (fs w) p s = Inr f"
    and w1: "w1 = emit (OpenWrite p s None) (w\<lparr>fs := f\<rparr>)"
    by (auto simp: write_file_def split: sum.splits)
  from fs_put_result[OF f] have "\<exists>rd. stat f p = Inr (File rd True s)"
    by (auto simp: stat_update_file)
  with f w1 show ?thesis
    by blast
qed

lemma write_file_failed:
  assumes "write_file p s w = (Inl e, w1)"
  shows "fs_put False (fs w) p s = Inl e \<and> w1 = emit (OpenWrite p s (Some e)) w"
  using assms by (auto simp: write_file_def split: sum.splits)

lemma attempt_value_Some:
  "attempt_value it = Some v \<Longrightarrow>
     \<exists>d p body q s. it = [Sleep d, OpenRead p (Inr body), OpenWrite q s None] \<and> v = strip body"
  by (auto simp: attempt_value_def split: list.splits event.splits sum.splits option.splits)


lemma retry_loop_result:
  assumes run: "retry_loop env atts w = (r, w')"
  shows "r \<noteq> [] \<and>
     (r = fallback_message \<or>
      (\<exists>body. OpenRead output_file (Inr body) \<in> set (drop (length (events w)) (events w')) \<and>
         r = strip body))"
proof -
  from retry_loop_trace[OF run] obtain iters tail where
    ev: "events w' = events w @ concat iters @ tail" and
    shp: "\<forall>it\<in>set iters. attempt_shape it" and
    res: "(r = fallback_message \<and> (\<forall>it\<in>set iters. attempt_value it = None) \<and>
            (length iters = length atts \<or>
             (iters \<noteq> [] \<and> atts ! (length iters - 1) = max_retries - 1))) \<or>
          (iters \<noteq> [] \<and> attempt_value (last iters) = Some r \<and> r \<noteq> [] \<and> tail = [] \<and>
            (\<forall>it\<in>set (butlast iters). attempt_value it = None))"
    by blast
  show ?thesis
  proof (cases "r = fallback_message")
    case True
    then show ?thesis
      by (simp add: fallback_message_nonempty)
  next
    case False
    with res have ne: "iters \<noteq> []" and v: "attempt_value (last iters) = Some r" and r: "r \<noteq> []"
      by auto
    from ne have mem: "last iters \<in> set iters"
      by simp
    with shp have "attempt_shape (last iters)"
      by simp
    with attempt_value_Some[OF v] obtain body where
      it: "last iters = [Sleep retry_delay, OpenRead output_file (Inr body), OpenWrite output_file [] None]"
      and rb: "r = strip body"
      by (auto simp: attempt_shape_simps)
    from it have "OpenRead output_file (Inr body) \<in> set (last iters)"
      by simp
    with mem have "OpenRead output_file (Inr body) \<in> set (concat iters)"
      by auto
    with ev have "OpenRead output_file (Inr body) \<in> set (drop (length (events w)) (events w'))"
      by simp
    with r rb show ?thesis
      by auto
  qed
qed

lemma new_events_append: "events w' = events w @ xs \<Longrightarrow> new_events w w' = xs"
  by (simp add: new_events_def)

lemma retry_loop_extends: "retry_loop env atts w = (r, w') \<Longrightarrow> \<exists>xs. events w' = events w @ xs"
  using retry_loop_trace by blast

lemma retry_loop_quiet:
  "retry_loop env atts w = (r, w') \<Longrightarrow> max_retries - 1 \<notin> set (butlast atts) \<Longrightarrow>
   \<forall>e\<in>set (new_events w w'). \<not> saw_response e \<Longrightarrow>
     r = fallback_message \<and> fs w' = fold (engine_step env) atts (fs w) \<and>
     (\<forall>e\<in>set (new_events w w'). \<not> wrote_output e)"
proof (induction atts arbitrary: w)
  case Nil
  then show ?case
    by (auto simp: new_events_def)
next
  case (Cons a atts)
  let ?ws = "time_sleep env a retry_delay w"
  have seen: False
    if "events w' = events w @ xs" "OpenRead output_file (Inr body) \<in> set xs"
      "strip body \<noteq> []" for xs body
  proof -
    from that(1) have "new_events w w' = xs"
      by (rule new_events_append)
    with Cons.prems(3) that(2) have "\<not> saw_response (OpenRead output_file (Inr body))"
      by blast
    with that(3) show False
      by (simp add: saw_response_def)
  qed
  have tl: "max_retries - 1 \<notin> set (butlast atts)"
    using Cons.prems(2) by (cases atts) (auto split: if_splits)
  have continue: ?case
    if run: "retry_loop env atts w2 = (r, w')" and
      ev: "events w2 = events w @ pre" and pre: "\<forall>e\<in>set pre. \<not> wrote_output e" and
      f: "fs w2 = engine_step env a (fs w)" for w2 pre
  proof -
    from retry_loop_extends[OF run] obtain xs where xs: "events w' = events w2 @ xs"
      by blast
    then have n2: "new_events w2 w' = xs"
      by (rule new_events_append)
    from xs ev have n: "new_events w w' = pre @ xs"
      by (simp add: new_events_def)
    with Cons.prems(3) n2 have "\<forall>e\<in>set (new_events w2 w'). \<not> saw_response e"
      by simp
    from Cons.IH[OF run tl this] f pre n n2 show ?thesis
      by auto
  qed
  have last_one: "atts = []" if "a = max_retries - 1"
    using Cons.prems(2) that by (cases atts) auto
  show ?case
  proof (cases rule: read_output_cases[of ?ws])
    case (unreadable e)
    show ?thesis
    proof (cases "a = max_retries - 1")
      case True
      with unreadable Cons.prems(1) last_one have
        "r = fallback_message" "fs w' = fold (engine_step env) (a # atts) (fs w)"
        "events w' = events w @ [Sleep retry_delay, OpenRead output_file (Inl e),
            StError ''Error reading Scala response: '' e]"
        by (auto simp: st_error_def emit_fields time_sleep_fields)
      then show ?thesis
        by (simp add: new_events_def wrote_output_def)
    next
      case False
      with unreadable Cons.prems(1) show ?thesis
        by (intro continue[of _ "[Sleep retry_delay, OpenRead output_file (Inl e)]"])
          (auto simp: emit_fields time_sleep_fields wrote_output_def)
    qed
  next
    case (blank body)
    with Cons.prems(1) show ?thesis
      by (intro continue[of _ "[Sleep retry_delay, OpenRead output_file (Inr body)]"])
        (auto simp: emit_fields time_sleep_fields wrote_output_def)
  next
    case (unclearable body e)
    obtain w2 where w2: "read_output ?ws = (Inl e, w2)" and
      ev2: "events w2 = events w @ [Sleep retry_delay, OpenRead output_file (Inr body),
              OpenWrite output_file [] (Some e)]"
      using unclearable by (simp add: emit_fields time_sleep_fields)
    have "\<exists>xs. events w' = events w2 @ xs"
    proof (cases "a = max_retries - 1")
      case True
      with w2 Cons.prems(1) show ?thesis
        by (auto simp: st_error_def emit_fields)
    next
      case False
      with w2 Cons.prems(1) show ?thesis
        by (auto intro: retry_loop_extends)
    qed
    with ev2 seen[of _ body] unclearable(2) show ?thesis
      by auto
  next
    case (consumed body f)
    with Cons.prems(1) have
      "events w' = events w @ [Sleep retry_delay, OpenRead output_file (Inr body),
              OpenWrite output_file [] None]"
      by (auto simp: emit_fields time_sleep_fields)
    with seen[of _ body] consumed(2) show ?thesis
      by auto
  qed
qed

lemma late_response_observed:
  assumes req: "map_of (fs w) input_file = Some (File rd True old)"
    and slot: "map_of (fs w) output_file = Some (File True True late)"
    and late: "strip (universal_newlines late) \<noteq> []"
    and still: "\<forall>f. env 0 f = map_of f output_file"
  shows "fst (communicate_with_scala env u w) = strip (universal_newlines late)"
proof -
  let ?f1 = "AList.update input_file (File rd True (u @ [LF])) (fs w)"
  let ?w1 = "emit (OpenWrite input_file (u @ [LF]) None) (w\<lparr>fs := ?f1\<rparr>)"
  from req have "stat (fs w) input_file = Inr (File rd True old)"
    by (simp add: stat_File_map_of input_file_no_sep)
  then have "fs_put False (fs w) input_file (u @ [LF]) = Inr ?f1"
    by (simp add: fs_put_existing)
  then have wr: "write_file input_file (u @ [LF]) w = (Inr (), ?w1)"
    by (simp add: write_file_def)
  have m1: "map_of ?f1 output_file = Some (File True True late)"
    using slot input_file_neq_output_file by (simp add: update_conv')
  let ?ws = "time_sleep env 0 retry_delay ?w1"
  have "engine_step env 0 ?f1 = ?f1"
    using still m1 by (simp add: engine_step_def update_triv)
  then have fws: "fs ?ws = ?f1"
    by (simp add: time_sleep_fields emit_fields)
  with m1 have st: "stat (fs ?ws) output_file = Inr (File True True late)"
    by (simp add: stat_File_map_of output_file_no_sep)
  then have g: "fs_get (fs ?ws) output_file = Inr (universal_newlines late)"
    by (simp add: fs_get_def)
  from st have "\<exists>f. fs_put False (fs ?ws) output_file [] = Inr f"
    by (simp add: fs_put_existing)
  with g late have "fst (read_output ?ws) = Inr (Some (strip (universal_newlines late)))"
    by (cases rule: read_output_cases[of ?ws]) auto
  then have "fst (retry_loop env (0 # [1..<max_retries]) ?w1) = strip (universal_newlines late)"
    by (cases "read_output ?ws") simp
  moreover have "[0..<max_retries] = 0 # [1..<max_retries]"
    by (simp add: max_retries_def upt_conv_Cons)
  ultimately show ?thesis
    using wr by (simp add: communicate_with_scala_def)
qed



lemma stat_cong_map_of:
  "map_of f (strip_sep p) = map_of g (strip_sep p) \<Longrightarrow> stat f p = stat g p"
  by (simp add: stat_def)


lemma communicate_with_scala_frame:
  assumes "communicate_with_scala env u w = (r, w1)"
  shows "chat_memory w1 = chat_memory w \<and> conversation w1 = conversation w \<and>
         (\<forall>k. k \<noteq> input_file \<and> k \<noteq> output_file \<longrightarrow> map_of (fs w1) k = map_of (fs w) k) \<and>
         (\<exists>xs. events w1 = events w @ xs)"
proof -
  obtain x w0 where wr: "write_file input_file (u @ [LF]) w = (x, w0)"
    by (cases "write_file input_file (u @ [LF]) w")
  show ?thesis
  proof (cases x)
    case (Inl e)
    from write_file_failed[OF wr[unfolded Inl]] wr Inl assms show ?thesis
      by (auto simp: communicate_with_scala_def st_error_def emit_fields)
  next
    case (Inr v)
    with wr assms have loop: "retry_loop env [0..<max_retries] w0 = (r, w1)"
      by (simp add: communicate_with_scala_def)
    from write_file_ok[OF wr[unfolded Inr]] obtain f where
      put: "fs_put False (fs w) input_file (u @ [LF]) = Inr f" and
      w0: "w0 = emit (OpenWrite input_file (u @ [LF]) None) (w\<lparr>fs := f\<rparr>)"
      by blast
    from fs_put_result[OF put] have "\<exists>n. f = AList.update input_file n (fs w)"
      by auto
    then have ff: "\<forall>k. k \<noteq> input_file \<longrightarrow> map_of f k = map_of (fs w) k"
      by (auto simp: update_conv')
    from retry_loop_extends[OF loop] obtain xs where "events w1 = events w0 @ xs"
      by blast
    with w0 have "\<exists>ys. events w1 = events w @ ys"
      by (simp add: emit_fields)
    with retry_loop_frame[OF loop] ff w0 show ?thesis
      by (simp add: emit_fields)
  qed
qed

lemma conversations_path_not_channel:
  "strip_sep (conversations_dir @ cur) \<noteq> input_file \<and>
   strip_sep (conversations_dir @ cur) \<noteq> output_file"
  by (simp add: strip_sep_def conversations_dir_def input_file_def output_file_def)


section \<open>Facts about the store set-up and the question block\<close>

lemma preserved_iff:
  "preserved f f' \<longleftrightarrow> (\<forall>k n. map_of f k = Some n \<longrightarrow> map_of f' k = Some n)"
proof
  assume p: "preserved f f'"
  show "\<forall>k n. map_of f k = Some n \<longrightarrow> map_of f' k = Some n"
  proof (intro allI impI)
    fix k n
    assume s: "map_of f k = Some n"
    then have "k \<in> set (map fst f)"
      by (metis map_of_eq_None_iff option.distinct(1) set_map)
    with p have "map_of f' k = map_of f k"
      unfolding preserved_def by blast
    with s show "map_of f' k = Some n"
      by simp
  qed
next
  assume a: "\<forall>k n. map_of f k = Some n \<longrightarrow> map_of f' k = Some n"
  show "preserved f f'"
    unfolding preserved_def
  proof
    fix k
    assume "k \<in> set (map fst f)"
    then obtain n where "map_of f k = Some n"
      by (metis map_of_eq_None_iff not_Some_eq set_map)
    with a show "map_of f' k = map_of f k"
      by simp
  qed
qed

lemma preserved_refl: "preserved f f"
  by (simp add: preserved_def)

lemma preserved_trans: "preserved f g \<Longrightarrow> preserved g h \<Longrightarrow> preserved f h"
  by (simp add: preserved_iff)

lemma preserved_update_new: "map_of f k = None \<Longrightarrow> preserved f (AList.update k n f)"
  by (auto simp: preserved_iff update_conv')

lemma exists_preserved:
  "preserved f f' \<Longrightarrow> os_path_exists f p \<Longrightarrow> os_path_exists f' p"
  by (auto simp: preserved_iff os_path_exists_def stat_def split: option.splits node.splits if_splits)

lemma fs_makedirs_result:
  "fs_makedirs f p = Inr f' \<Longrightarrow>
     map_of f (strip_sep p) = None \<and> f' = AList.update (strip_sep p) (Dir True) f"
  by (cases "stat f p")
    (auto simp: fs_makedirs_def stat_Inl dest!: create_in_parent_result split: if_splits)

lemma conversations_dir_key: "strip_sep conversations_dir = ''conversations''"
  by code_simp

lemma current_chat_file_no_sep: "\<not> ends_with_sep current_chat_file"
  by code_simp

lemma first_chat_file_no_sep: "\<not> ends_with_sep first_chat_file"
  by code_simp

lemma first_chat_file_entry:
  "entry_name conversations_dir first_chat_file = Some ''chathistory_0.txt''"
  "os_path_join conversations_dir ''chathistory_0.txt'' = first_chat_file"
  by code_simp+

lemma first_chat_file_keys:
  "first_chat_file \<noteq> ''conversations''" "first_chat_file \<noteq> current_chat_file"
  "current_chat_file \<noteq> ''conversations''"
  by code_simp+

lemma create_conversations_dir_any:
  "preserved (fs w) (fs (snd (create_conversations_dir w)))"
proof (cases "fs_makedirs (fs w) conversations_dir")
  case (Inl e)
  then show ?thesis
    by (simp add: create_conversations_dir_def os_makedirs_def return_def emit_fields
        preserved_refl)
next
  case (Inr f)
  from fs_makedirs_result[OF Inr] have "preserved (fs w) f"
    by (auto intro: preserved_update_new)
  with Inr show ?thesis
    by (simp add: create_conversations_dir_def os_makedirs_def return_def emit_fields
        preserved_refl)
qed

lemma create_conversations_dir_ok:
  assumes "create_conversations_dir w = (Inr u, w1)"
  shows "os_path_exists (fs w1) conversations_dir"
proof (cases "os_path_exists (fs w) conversations_dir")
  case True
  with assms show ?thesis
    by (auto simp: create_conversations_dir_def return_def)
next
  case False
  with assms obtain f where mk: "fs_makedirs (fs w) conversations_dir = Inr f" and f: "fs w1 = f"
    by (auto simp: create_conversations_dir_def os_makedirs_def emit_fields split: sum.splits)
  from fs_makedirs_result[OF mk] f show ?thesis
    by (simp add: os_path_exists_def stat_def update_conv')
qed

lemma create_conversations_dir_skip:
  "os_path_exists (fs w) conversations_dir \<Longrightarrow> create_conversations_dir w = (Inr (), w)"
  by (simp add: create_conversations_dir_def return_def)

lemma write_new_file:
  assumes "\<not> os_path_exists f p" "\<not> ends_with_sep p" "fs_put False f p s = Inr f'"
  shows "map_of f p = None \<and> f' = AList.update p (File True True s) f"
proof -
  from assms(1,2) have "map_of f p = None"
    by (auto simp: os_path_exists_def stat_def strip_sep_idem split: option.splits node.splits)
  with fs_put_result[OF assms(3)] show ?thesis
    by auto
qed

lemma create_current_chat_file_any:
  "preserved (fs w) (fs (snd (create_current_chat_file w)))"
proof (cases "os_path_exists (fs w) current_chat_file")
  case True
  then show ?thesis
    by (simp add: create_current_chat_file_def return_def preserved_refl)
next
  case False
  show ?thesis
  proof (cases "fs_put False (fs w) current_chat_file ''chathistory_0.txt''")
    case (Inl e)
    with False show ?thesis
      by (simp add: create_current_chat_file_def write_file_def emit_fields preserved_refl)
  next
    case (Inr f)
    from write_new_file[OF False current_chat_file_no_sep Inr] have "preserved (fs w) f"
      by (auto intro: preserved_update_new)
    with False Inr show ?thesis
      by (simp add: create_current_chat_file_def write_file_def emit_fields)
  qed
qed

lemma create_current_chat_file_ok:
  assumes "create_current_chat_file w = (Inr u, w1)"
  shows "os_path_exists (fs w1) current_chat_file"
proof (cases "os_path_exists (fs w) current_chat_file")
  case True
  with assms show ?thesis
    by (auto simp: create_current_chat_file_def return_def)
next
  case False
  with assms obtain f where put: "fs_put False (fs w) current_chat_file ''chathistory_0.txt'' = Inr f"
    and f: "fs w1 = f"
    by (auto simp: create_current_chat_file_def write_file_def emit_fields split: sum.splits)
  from write_new_file[OF False current_chat_file_no_sep put] f show ?thesis
    by (simp add: os_path_exists_def stat_update_file current_chat_file_no_sep)
qed

lemma create_current_chat_file_skip:
  "os_path_exists (fs w) current_chat_file \<Longrightarrow> create_current_chat_file w = (Inr (), w)"
  by (simp add: create_current_chat_file_def return_def)

lemma in_map_filter:
  "x \<in> set xs \<Longrightarrow> g x = Some y \<Longrightarrow> y \<in> set (List.map_filter g xs)"
  by (induction xs) (auto split: option.splits)

lemma listing_has_first_chat_file:
  assumes m: "map_of f first_chat_file = Some (File r w s)"
    and l: "list_files_in_folder f conversations_dir = Inr listed"
  shows "''chathistory_0.txt'' \<in> set listed"
proof -
  from l obtain names where n: "os_listdir f conversations_dir = Inr names"
    and ls: "listed = filter (\<lambda>file. os_path_isfile f (os_path_join conversations_dir file)) names"
    by (auto simp: list_files_in_folder_def split: sum.splits)
  from n have names: "names = List.map_filter (\<lambda>(k, n). entry_name conversations_dir k) f"
    by (auto simp: os_listdir_def split: sum.splits node.splits)
  from m have "(first_chat_file, File r w s) \<in> set f"
    by (rule map_of_SomeD)
  then have "''chathistory_0.txt'' \<in> set names"
    unfolding names by (rule in_map_filter) (simp add: first_chat_file_entry(1))
  moreover from m have "os_path_isfile f first_chat_file"
    by (simp add: os_path_isfile_def stat_def strip_sep_idem first_chat_file_no_sep)
  ultimately show ?thesis
    by (simp add: ls first_chat_file_entry(2))
qed

lemma conversation_files_nonempty:
  assumes a: "''chathistory_0.txt'' \<in> set listed"
  shows "(if ''currentchat.txt'' \<in> set listed then remove1 ''currentchat.txt'' listed else listed)
          \<noteq> []"
proof -
  have "remove1 ''currentchat.txt'' listed \<noteq> []"
  proof
    assume e: "remove1 ''currentchat.txt'' listed = []"
    have "''chathistory_0.txt'' \<in> set (remove1 ''currentchat.txt'' listed)"
      using a by simp
    then show False
      unfolding e by simp
  qed
  moreover from a have "listed \<noteq> []"
    by auto
  ultimately show ?thesis
    by simp
qed

lemma listdir_still_works:
  assumes "list_files_in_folder f conversations_dir = Inr listed" "k \<noteq> ''conversations''"
  shows "\<exists>listed'. list_files_in_folder (AList.update k n f) conversations_dir = Inr listed'"
proof -
  from assms(1) obtain c where "stat f conversations_dir = Inr (Dir c)"
    by (auto simp: list_files_in_folder_def os_listdir_def split: sum.splits node.splits)
  with assms(2) have "stat (AList.update k n f) conversations_dir = Inr (Dir c)"
    by (simp add: stat_update_other conversations_dir_key)
  then show ?thesis
    by (simp add: list_files_in_folder_def os_listdir_def)
qed

lemma create_first_chat_file_cases:
  assumes "create_first_chat_file w = (x, w1)"
  obtains (failed) e where "x = Inl e" "fs w1 = fs w"
  | (created) "x = Inr ()" "map_of (fs w) first_chat_file = None"
      "fs w1 = AList.update first_chat_file (File True True []) (fs w)"
      "\<exists>listed. list_files_in_folder (fs w) conversations_dir = Inr listed"
  | (present) listed where "x = Inr ()" "fs w1 = fs w" "w1 = w"
      "list_files_in_folder (fs w) conversations_dir = Inr listed"
      "(if ''currentchat.txt'' \<in> set listed then remove1 ''currentchat.txt'' listed else listed) \<noteq> []"
proof (cases "list_files_in_folder (fs w) conversations_dir")
  case (Inl e)
  with assms have "x = Inl e" "fs w1 = fs w"
    by (auto simp: create_first_chat_file_def)
  then show ?thesis by (rule failed)
next
  case (Inr listed)
  let ?cf = "if ''currentchat.txt'' \<in> set listed then remove1 ''currentchat.txt'' listed else listed"
  show ?thesis
  proof (cases "?cf = []")
    case False
    with Inr assms have "x = Inr ()" "w1 = w"
      by (auto simp: create_first_chat_file_def return_def)
    with Inr False show ?thesis
      by (intro present[of listed]) simp_all
  next
    case True
    with Inr assms have wr: "write_file first_chat_file [] w = (x, w1)"
      by (simp add: create_first_chat_file_def)
    show ?thesis
    proof (cases "fs_put False (fs w) first_chat_file []")
      case (Inl e)
      with wr have "x = Inl e" "fs w1 = fs w"
        by (auto simp: write_file_def emit_fields)
      then show ?thesis by (rule failed)
    next
      case put: (Inr f)
      with wr have x: "x = Inr ()" and f: "fs w1 = f"
        by (auto simp: write_file_def emit_fields)
      have none: "map_of (fs w) first_chat_file = None"
      proof (rule ccontr)
        assume "map_of (fs w) first_chat_file \<noteq> None"
        with fs_put_result[OF put] obtain r old where
          "map_of (fs w) first_chat_file = Some (File r True old)"
          by auto
        from listing_has_first_chat_file[OF this Inr] have "?cf \<noteq> []"
          by (rule conversation_files_nonempty)
        with True show False by simp
      qed
      with fs_put_result[OF put] f have "fs w1 = AList.update first_chat_file (File True True []) (fs w)"
        by auto
      with x none Inr show ?thesis
        by (intro created) auto
    qed
  qed
qed

lemma create_first_chat_file_any:
  "preserved (fs w) (fs (snd (create_first_chat_file w)))"
proof -
  obtain x w1 where r: "create_first_chat_file w = (x, w1)"
    by (cases "create_first_chat_file w")
  then have "preserved (fs w) (fs w1)"
  proof (cases rule: create_first_chat_file_cases)
    case (failed e)
    then show ?thesis by (simp add: preserved_refl)
  next
    case created
    then show ?thesis by (simp add: preserved_update_new)
  next
    case (present listed)
    then show ?thesis by (simp add: preserved_refl)
  qed
  with r show ?thesis
    by simp
qed

lemma create_first_chat_file_ok:
  assumes run: "create_first_chat_file w = (Inr u, w1)"
  shows "case list_files_in_folder (fs w1) conversations_dir of
      Inl e \<Rightarrow> False
    | Inr listed \<Rightarrow>
        (if ''currentchat.txt'' \<in> set listed
         then remove1 ''currentchat.txt'' listed else listed) \<noteq> []"
  using run
proof (cases rule: create_first_chat_file_cases)
  case (failed e)
  then show ?thesis
    by simp
next
  case created
  from created(4) obtain listed where "list_files_in_folder (fs w) conversations_dir = Inr listed"
    by blast
  from listdir_still_works[OF this first_chat_file_keys(1)] created(3) obtain listed' where
    l': "list_files_in_folder (fs w1) conversations_dir = Inr listed'"
    by auto
  from created(3) have "map_of (fs w1) first_chat_file = Some (File True True [])"
    by (simp add: update_conv')
  from listing_has_first_chat_file[OF this l'] have
    "(if ''currentchat.txt'' \<in> set listed' then remove1 ''currentchat.txt'' listed' else listed') \<noteq> []"
    by (rule conversation_files_nonempty)
  with l' show ?thesis
    by simp
next
  case (present listed)
  then show ?thesis
    by simp
qed

lemma and_then_Inr:
  "and_then m k w = (Inr y, w') \<Longrightarrow> \<exists>x w1. m w = (Inr x, w1) \<and> k x w1 = (Inr y, w')"
  by (auto simp: and_then_def split: prod.splits sum.splits)

lemma and_then_preserved:
  assumes "\<And>v. preserved (fs v) (fs (snd (m v)))"
    and "\<And>x v. preserved (fs v) (fs (snd (k x v)))"
  shows "preserved (fs w) (fs (snd (and_then m k w)))"
proof (cases "m w")
  case (Pair x w1)
  from assms(1)[of w] Pair have p1: "preserved (fs w) (fs w1)"
    by simp
  show ?thesis
  proof (cases x)
    case (Inl e)
    with Pair p1 show ?thesis
      by (simp add: and_then_def)
  next
    case (Inr y)
    from assms(2)[of w1 y] have "preserved (fs w1) (fs (snd (k y w1)))" .
    with p1 have "preserved (fs w) (fs (snd (k y w1)))"
      by (rule preserved_trans)
    with Pair Inr show ?thesis
      by (simp add: and_then_def)
  qed
qed

lemma get_current_chat_eq:
  "get_current_chat w =
     (case fs_get (fs w) current_chat_file of
        Inl e \<Rightarrow> (Inl e, emit (OpenRead current_chat_file (Inl e)) w)
      | Inr body \<Rightarrow> (Inr (strip (readline body)), emit (OpenRead current_chat_file (Inr body)) w))"
  by (simp add: get_current_chat_def and_then_def read_file_def return_def split: sum.splits)

lemma get_current_chat_fs: "fs (snd (get_current_chat w)) = fs w"
  by (simp add: get_current_chat_eq emit_fields split: sum.splits)

lemma create_first_chat_file_skip:
  "store_ready (fs w) \<Longrightarrow> create_first_chat_file w = (Inr (), w)"
  by (auto simp: store_ready_def create_first_chat_file_def return_def split: sum.splits)

lemma init_store_ready:
  assumes "store_ready (fs w)"
  shows "init_store w = get_current_chat w"
proof -
  from assms have d: "os_path_exists (fs w) conversations_dir"
    and c: "os_path_exists (fs w) current_chat_file"
    by (simp_all add: store_ready_def)
  show ?thesis
    by (simp add: init_store_def and_then_def create_conversations_dir_skip[OF d]
        create_current_chat_file_skip[OF c] create_first_chat_file_skip[OF assms])
qed

lemma init_store_makes_ready:
  assumes "init_store w = (Inr cur, w1)"
  shows "store_ready (fs w1) \<and>
         (\<exists>body. fs_get (fs w1) current_chat_file = Inr body \<and> cur = strip (readline body))"
proof -
  from assms obtain u1 wa where a: "create_conversations_dir w = (Inr u1, wa)"
    and r1: "and_then create_current_chat_file (\<lambda>u.
               and_then create_first_chat_file (\<lambda>u. get_current_chat)) wa = (Inr cur, w1)"
    unfolding init_store_def by (blast dest: and_then_Inr)
  from r1 obtain u2 wb where b: "create_current_chat_file wa = (Inr u2, wb)"
    and r2: "and_then create_first_chat_file (\<lambda>u. get_current_chat) wb = (Inr cur, w1)"
    by (blast dest: and_then_Inr)
  from r2 obtain u3 wc where c: "create_first_chat_file wb = (Inr u3, wc)"
    and r3: "get_current_chat wc = (Inr cur, w1)"
    by (blast dest: and_then_Inr)
  from create_current_chat_file_any[of wa] b have pab: "preserved (fs wa) (fs wb)"
    by simp
  from create_first_chat_file_any[of wb] c have pbc: "preserved (fs wb) (fs wc)"
    by simp
  from create_conversations_dir_ok[OF a] have "os_path_exists (fs wa) conversations_dir" .
  with pab pbc have d: "os_path_exists (fs wc) conversations_dir"
    by (blast intro: exists_preserved)
  from create_current_chat_file_ok[OF b] pbc have p: "os_path_exists (fs wc) current_chat_file"
    by (blast intro: exists_preserved)
  from d p create_first_chat_file_ok[OF c] have ready: "store_ready (fs wc)"
    by (simp add: store_ready_def)
  from get_current_chat_fs[of wc] r3 have f: "fs w1 = fs wc"
    by simp
  from r3 have "\<exists>body. fs_get (fs wc) current_chat_file = Inr body \<and> cur = strip (readline body)"
    by (auto simp: get_current_chat_eq split: sum.splits)
  with ready f show ?thesis
    by simp
qed

lemma init_store_preserved: "preserved (fs w) (fs (snd (init_store w)))"
  unfolding init_store_def
  by (intro and_then_preserved create_conversations_dir_any create_current_chat_file_any
      create_first_chat_file_any) (simp add: get_current_chat_fs preserved_refl)


lemma append_only_iff:
  "append_only f f' \<longleftrightarrow>
     (\<forall>k r w old. k \<noteq> input_file \<and> k \<noteq> output_file \<and> map_of f k = Some (File r w old) \<longrightarrow>
        (\<exists>new. map_of f' k = Some (File r w new) \<and> prefix old new))"
proof
  assume a: "append_only f f'"
  show "\<forall>k r w old. k \<noteq> input_file \<and> k \<noteq> output_file \<and> map_of f k = Some (File r w old) \<longrightarrow>
        (\<exists>new. map_of f' k = Some (File r w new) \<and> prefix old new)"
  proof (intro allI impI)
    fix k r w old
    assume h: "k \<noteq> input_file \<and> k \<noteq> output_file \<and> map_of f k = Some (File r w old)"
    then have "k \<in> set (map fst f)"
      by (metis map_of_eq_None_iff option.distinct(1) set_map)
    with a have "k = input_file \<or> k = output_file \<or>
        (case map_of f k of
           Some (File r w old) \<Rightarrow>
             (case map_of f' k of
                Some (File r' w' new) \<Rightarrow> r' = r \<and> w' = w \<and> prefix old new
              | _ \<Rightarrow> False)
         | _ \<Rightarrow> True)"
      unfolding append_only_def by (rule bspec)
    with h have "case map_of f' k of
                Some (File r' w' new) \<Rightarrow> r' = r \<and> w' = w \<and> prefix old new
              | _ \<Rightarrow> False"
      by simp
    then show "\<exists>new. map_of f' k = Some (File r w new) \<and> prefix old new"
      by (auto split: option.splits node.splits)
  qed
next
  assume b: "\<forall>k r w old. k \<noteq> input_file \<and> k \<noteq> output_file \<and> map_of f k = Some (File r w old) \<longrightarrow>
        (\<exists>new. map_of f' k = Some (File r w new) \<and> prefix old new)"
  show "append_only f f'"
    unfolding append_only_def
  proof
    fix k
    assume "k \<in> set (map fst f)"
    show "k = input_file \<or> k = output_file \<or>
        (case map_of f k of
           Some (File r w old) \<Rightarrow>
             (case map_of f' k of
                Some (File r' w' new) \<Rightarrow> r' = r \<and> w' = w \<and> prefix old new
              | _ \<Rightarrow> False)
         | _ \<Rightarrow> True)"
    proof (cases "k = input_file \<or> k = output_file")
      case True
      then show ?thesis by blast
    next
      case False
      show ?thesis
      proof (cases "map_of f k")
        case None
        then show ?thesis by simp
      next
        case (Some n)
        show ?thesis
        proof (cases n)
          case (Dir c)
          with Some show ?thesis by simp
        next
          case (File r w old)
          with Some False b obtain new where "map_of f' k = Some (File r w new)" "prefix old new"
            by blast
          with Some File show ?thesis
            by simp
        qed
      qed
    qed
  qed
qed

lemma append_only_refl: "append_only f f"
  by (auto simp: append_only_iff)

lemma append_only_trans:
  assumes "append_only f g" "append_only g h"
  shows "append_only f h"
  unfolding append_only_iff
proof (intro allI impI)
  fix k r w old
  assume a: "k \<noteq> input_file \<and> k \<noteq> output_file \<and> map_of f k = Some (File r w old)"
  from assms(1)[unfolded append_only_iff, rule_format, OF a]
  obtain mid where m: "map_of g k = Some (File r w mid)" "prefix old mid"
    by blast
  from a m(1) have "k \<noteq> input_file \<and> k \<noteq> output_file \<and> map_of g k = Some (File r w mid)"
    by simp
  from assms(2)[unfolded append_only_iff, rule_format, OF this]
  obtain new where "map_of h k = Some (File r w new)" "prefix mid new"
    by blast
  with m(2) show "\<exists>new. map_of h k = Some (File r w new) \<and> prefix old new"
    by (auto intro: prefix_order.trans)
qed

lemma preserved_append_only: "preserved f f' \<Longrightarrow> append_only f f'"
  by (auto simp: preserved_iff append_only_iff)

lemma same_files_append_only:
  "\<forall>k. k \<noteq> input_file \<and> k \<noteq> output_file \<longrightarrow> map_of f' k = map_of f k \<Longrightarrow> append_only f f'"
  by (auto simp: append_only_iff)

lemma fs_put_append_only: "fs_put True f p s = Inr f' \<Longrightarrow> append_only f f'"
  by (drule fs_put_result) (auto simp: append_only_iff update_conv')

lemma append_file_append_only: "append_only (fs w) (fs (snd (append_file p s w)))"
  by (auto simp: append_file_def emit_fields append_only_refl fs_put_append_only split: sum.splits)

lemma handle_question_append_only:
  "append_only (fs w) (fs (snd (handle_question env uq cur w)))"
proof (cases "\<exists>q. uq = Some q \<and> q \<noteq> []")
  case False
  then show ?thesis
    by (auto simp: handle_question_def append_only_refl split: option.splits)
next
  case True
  then obtain q where q: "uq = Some q" "q \<noteq> []"
    by blast
  obtain r w1 where call: "communicate_with_scala env q w = (r, w1)"
    by (cases "communicate_with_scala env q w")
  from communicate_with_scala_frame[OF call] have a1: "append_only (fs w) (fs w1)"
    by (intro same_files_append_only) simp
  show ?thesis
  proof (cases "chat_memory w1")
    case None
    with q call a1 show ?thesis
      by (simp add: handle_question_def emit_fields)
  next
    case (Some m)
    let ?w4 = "(emit (ChatMessage ASSISTANT r) (emit (ChatMessage USER q) w1))
      \<lparr>chat_memory := Some (m @ [\<lparr>question = q, answer = r\<rparr>])\<rparr>"
    have "fs ?w4 = fs w1"
      by (simp add: emit_fields)
    with append_file_append_only[of ?w4 "conversations_dir @ cur" "q @ [LF]"]
    have "append_only (fs w1) (fs (snd (append_file (conversations_dir @ cur) (q @ [LF]) ?w4)))"
      by simp
    with a1 have "append_only (fs w) (fs (snd (append_file (conversations_dir @ cur) (q @ [LF]) ?w4)))"
      by (rule append_only_trans)
    with q call Some show ?thesis
      by (simp add: handle_question_def emit_fields)
  qed
qed

lemma and_then_append_only:
  assumes "\<And>v. append_only (fs v) (fs (snd (m v)))"
    and "\<And>x v. append_only (fs v) (fs (snd (k x v)))"
  shows "append_only (fs w) (fs (snd (and_then m k w)))"
proof (cases "m w")
  case (Pair x w1)
  from assms(1)[of w] Pair have p1: "append_only (fs w) (fs w1)"
    by simp
  show ?thesis
  proof (cases x)
    case (Inl e)
    with Pair p1 show ?thesis
      by (simp add: and_then_def)
  next
    case (Inr y)
    from assms(2)[of w1 y] have "append_only (fs w1) (fs (snd (k y w1)))" .
    with p1 have "append_only (fs w) (fs (snd (k y w1)))"
      by (rule append_only_trans)
    with Pair Inr show ?thesis
      by (simp add: and_then_def)
  qed
qed

lemma show_interactions_fs: "fs (show_interactions m w) = fs w"
  by (induction m arbitrary: w) (simp_all add: emit_fields)

lemma main_chat_interface_append_only:
  "append_only (fs w) (fs (snd (main_chat_interface env uq w)))"
  unfolding main_chat_interface_def
proof (intro and_then_append_only)
  show "append_only (fs v) (fs (snd (return () (init_session v))))" for v
    by (simp add: return_def init_session_def append_only_refl)
  show "append_only (fs v) (fs (snd (init_store v)))" for v
    by (rule preserved_append_only) (rule init_store_preserved)
  show "append_only (fs v) (fs (snd (show_chat_memory v)))" for v
    by (simp add: show_chat_memory_def show_interactions_fs append_only_refl split: option.splits)
  show "append_only (fs v) (fs (snd (handle_question env uq x v)))" for x v
    by (rule handle_question_append_only)
qed

lemma question_block_appends:
  assumes mem: "chat_memory w = Some m" and q: "q \<noteq> []"
    and run: "handle_question env (Some q) cur w = (Inr (), w')"
  shows "\<exists>r wr. stat (fs w') (conversations_dir @ cur) =
           Inr (File r wr (log_text (fs w) (conversations_dir @ cur) @ q @ [LF]))"
proof -
  let ?p = "conversations_dir @ cur"
  obtain r w1 where call: "communicate_with_scala env q w = (r, w1)"
    by (cases "communicate_with_scala env q w")
  from communicate_with_scala_frame[OF call] have
    m1: "chat_memory w1 = chat_memory w" and
    f1: "\<forall>k. k \<noteq> input_file \<and> k \<noteq> output_file \<longrightarrow> map_of (fs w1) k = map_of (fs w) k"
    by simp_all
  from f1 conversations_path_not_channel[of cur] have st: "stat (fs w1) ?p = stat (fs w) ?p"
    by (intro stat_cong_map_of) simp
  let ?w4 = "(emit (ChatMessage ASSISTANT r) (emit (ChatMessage USER q) w1))
      \<lparr>chat_memory := Some (m @ [\<lparr>question = q, answer = r\<rparr>])\<rparr>"
  from run call q mem m1 have ap: "append_file ?p (q @ [LF]) ?w4 = (Inr (), w')"
    by (simp add: handle_question_def emit_fields)
  then obtain f where put: "fs_put True (fs w1) ?p (q @ [LF]) = Inr f" and f: "fs w' = f"
    by (auto simp: append_file_def emit_fields split: sum.splits)
  from fs_put_result[OF put] have nosep: "\<not> ends_with_sep ?p"
    by simp
  from fs_put_result[OF put] consider
    (existing) rd old where "map_of (fs w1) ?p = Some (File rd True old)"
      "f = AList.update ?p (File rd True (old @ q @ [LF])) (fs w1)"
    | (fresh) "map_of (fs w1) ?p = None" "f = AList.update ?p (File True True (q @ [LF])) (fs w1)"
    by auto
  then show ?thesis
  proof cases
    case existing
    from existing(1) nosep have "stat (fs w1) ?p = Inr (File rd True old)"
      by (simp add: stat_File_map_of)
    with st have "stat (fs w) ?p = Inr (File rd True old)"
      by simp
    then have "log_text (fs w) ?p = old"
      by (simp add: log_text_def)
    with existing(2) f nosep show ?thesis
      by (auto simp: stat_update_file)
  next
    case fresh
    from fresh(1) nosep have "stat (fs w1) ?p = Inl FileNotFoundError"
      by (simp add: stat_Inl strip_sep_idem)
    with st have "stat (fs w) ?p = Inl FileNotFoundError"
      by simp
    then have "log_text (fs w) ?p = []"
      by (simp add: log_text_def)
    with fresh(2) f nosep show ?thesis
      by (auto simp: stat_update_file)
  qed
qed


lemma question_block_append_failure:
  assumes mem: "chat_memory w = Some m" and q: "q \<noteq> []"
    and run: "handle_question env (Some q) cur w = (Inl e, w')"
  shows "\<exists>r. chat_memory w' = Some (m @ [\<lparr>question = q, answer = r\<rparr>]) \<and>
             last (events w') = OpenAppend (conversations_dir @ cur) (q @ [LF]) (Some e)"
proof -
  obtain r w1 where call: "communicate_with_scala env q w = (r, w1)"
    by (cases "communicate_with_scala env q w")
  from communicate_with_scala_frame[OF call] have m1: "chat_memory w1 = chat_memory w"
    by simp
  let ?w4 = "(emit (ChatMessage ASSISTANT r) (emit (ChatMessage USER q) w1))
      \<lparr>chat_memory := Some (m @ [\<lparr>question = q, answer = r\<rparr>])\<rparr>"
  from run call q mem m1 have "append_file (conversations_dir @ cur) (q @ [LF]) ?w4 = (Inl e, w')"
    by (simp add: handle_question_def emit_fields)
  then have "w' = emit (OpenAppend (conversations_dir @ cur) (q @ [LF]) (Some e)) ?w4"
    by (auto simp: append_file_def split: sum.splits)
  then show ?thesis
    by (simp add: emit_fields)
qed



































section \<open>The request protocol\<close>

text \<open>
  Claim C1. For every payload, engine and world, the record of a call of
  \<open>communicate_with_scala\<close> starts with the write of the payload and a line feed to the
  request slot. It goes on with at most \<open>max_retries = 3\<close> passes, each a sleep of
  \<open>retry_delay = 2\<close> followed by a read of the response slot (and, after text that is
  not blank, the clearing write), and the clock advances by the delay once per pass.
  When the request write succeeded the request slot holds the payload and a line feed
  afterwards; when it failed no pass runs. The result is the value of the first pass
  that obtained one, which is the last pass run and is not empty; when no pass obtained
  a value the result is the fallback message, after all three passes if the request was
  written. A pass obtains a value when its read yields text that is not blank and its
  clearing write succeeds; a pass whose read or clearing write raises obtains none
  (\<open>read_output_unclearable\<close>), as the \<open>except\<close> of the loop has it.
\<close>

theorem communicate_with_scala_protocol:
  assumes "communicate_with_scala env payload w = (r, w')"
  shows "\<exists>c iters tail.
     events w' = events w @ OpenWrite input_file (payload @ [LF]) c # concat iters @ tail \<and>
     length iters \<le> max_retries \<and> max_retries = 3 \<and> retry_delay = 2 \<and>
     (\<forall>it\<in>set iters. attempt_shape it) \<and>
     (\<forall>e\<in>set tail. \<exists>m x. e = StError m x) \<and>
     clock w' = clock w + retry_delay * length iters \<and>
     (c = None \<longrightarrow> (\<exists>rd. stat (fs w') input_file = Inr (File rd True (payload @ [LF])))) \<and>
     (c \<noteq> None \<longrightarrow> iters = [] \<and> r = fallback_message) \<and>
     ((r = fallback_message \<and> (\<forall>it\<in>set iters. attempt_value it = None) \<and>
         (c = None \<longrightarrow> length iters = max_retries)) \<or>
      (iters \<noteq> [] \<and> attempt_value (last iters) = Some r \<and> r \<noteq> [] \<and>
         (\<forall>it\<in>set (butlast iters). attempt_value it = None)))"
proof -
  obtain x w1 where wr: "write_file input_file (payload @ [LF]) w = (x, w1)"
    by (cases "write_file input_file (payload @ [LF]) w")
  show ?thesis
  proof (cases x)
    case (Inl e)
    with wr assms have r: "r = fallback_message"
      and w': "w' = st_error ''Error communicating with backend: '' e w1"
      by (auto simp: communicate_with_scala_def)
    from write_file_failed[OF wr[unfolded Inl]] have "w1 = emit (OpenWrite input_file (payload @ [LF]) (Some e)) w"
      by simp
    with w' have ev: "events w' = events w @ OpenWrite input_file (payload @ [LF]) (Some e) #
        concat [] @ [StError ''Error communicating with backend: '' e]"
      and clk: "clock w' = clock w"
      by (simp_all add: st_error_def emit_fields)
    show ?thesis
      apply (rule exI[of _ "Some e"])
      apply (rule exI[of _ "[]"])
      apply (rule exI[of _ "[StError ''Error communicating with backend: '' e]"])
      using ev clk r by (simp add: max_retries_def retry_delay_def)
  next
    case (Inr u)
    with wr assms have run: "retry_loop env [0..<max_retries] w1 = (r, w')"
      by (simp add: communicate_with_scala_def)
    from write_file_ok[OF wr[unfolded Inr]] obtain f rd where
      w1: "w1 = emit (OpenWrite input_file (payload @ [LF]) None) (w\<lparr>fs := f\<rparr>)" and
      st: "stat f input_file = Inr (File rd True (payload @ [LF]))"
      by blast
    from retry_loop_frame[OF run] input_file_neq_output_file
    have "map_of (fs w') input_file = map_of (fs w1) input_file"
      by simp
    with st w1 have slot: "\<exists>rd. stat (fs w') input_file = Inr (File rd True (payload @ [LF]))"
      by (simp add: stat_def emit_fields strip_sep_input_file)
    from retry_loop_trace[OF run] obtain iters tail where
      ev: "events w' = events w1 @ concat iters @ tail" and
      len: "length iters \<le> length [0..<max_retries]" and
      shp: "\<forall>it\<in>set iters. attempt_shape it" and
      tl: "tail = [] \<or> (\<exists>e. tail = [StError ''Error reading Scala response: '' e])" and
      clk: "clock w' = clock w1 + retry_delay * length iters" and
      res: "(r = fallback_message \<and> (\<forall>it\<in>set iters. attempt_value it = None) \<and>
              (length iters = length [0..<max_retries] \<or>
               (iters \<noteq> [] \<and> [0..<max_retries] ! (length iters - 1) = max_retries - 1))) \<or>
            (iters \<noteq> [] \<and> attempt_value (last iters) = Some r \<and> r \<noteq> [] \<and> tail = [] \<and>
              (\<forall>it\<in>set (butlast iters). attempt_value it = None))"
      by blast
    have len': "length iters \<le> max_retries"
      using len by simp
    have full: "length iters = max_retries"
      if "iters \<noteq> []" "[0..<max_retries] ! (length iters - 1) = max_retries - 1"
    proof -
      from that(1) len' have "length iters - 1 < max_retries" "0 < length iters"
        by (auto simp: max_retries_def)
      with that(2) show ?thesis
        by (simp add: max_retries_def)
    qed
    have 1: "events w' = events w @ OpenWrite input_file (payload @ [LF]) None # concat iters @ tail"
      using ev w1 by (simp add: emit_fields)
    have 2: "\<forall>e\<in>set tail. \<exists>m x. e = StError m x"
      using tl by auto
    have 3: "clock w' = clock w + retry_delay * length iters"
      using clk w1 by (simp add: emit_fields)
    have 4: "(r = fallback_message \<and> (\<forall>it\<in>set iters. attempt_value it = None) \<and>
                length iters = max_retries) \<or>
             (iters \<noteq> [] \<and> attempt_value (last iters) = Some r \<and> r \<noteq> [] \<and>
                (\<forall>it\<in>set (butlast iters). attempt_value it = None))"
      using res full by auto
    show ?thesis
      apply (rule exI[of _ "None"])
      apply (rule exI[of _ iters])
      apply (rule exI[of _ tail])
      using 1 len' shp 2 3 slot 4 by (simp add: max_retries_def retry_delay_def)
  qed
qed

text \<open>The sample world: the answer is there at the first pass.\<close>

theorem communicate_with_scala_protocol_witness:
  "communicate_with_scala idle ''What is Jaws?'' demo_world =
     (''Jaws (1975)'', snd (communicate_with_scala idle ''What is Jaws?'' demo_world)) \<and>
   (\<exists>c iters tail.
      events (snd (communicate_with_scala idle ''What is Jaws?'' demo_world)) =
        events demo_world @ OpenWrite input_file (''What is Jaws?'' @ [LF]) c # concat iters @ tail \<and>
      length iters \<le> 3 \<and>
      clock (snd (communicate_with_scala idle ''What is Jaws?'' demo_world)) =
        clock demo_world + 2 * length iters \<and>
      attempt_value (last iters) = Some ''Jaws (1975)'')"
proof -
  have h: "communicate_with_scala idle ''What is Jaws?'' demo_world =
     (''Jaws (1975)'', snd (communicate_with_scala idle ''What is Jaws?'' demo_world))"
    by code_simp
  have "''Jaws (1975)'' \<noteq> fallback_message"
    by (simp add: fallback_message_def)
  with communicate_with_scala_protocol[OF h] h show ?thesis
    by (simp add: max_retries_def retry_delay_def) blast
qed

section \<open>A failed append to the conversation file\<close>

text \<open>
  Claim C2. The append to the conversation file is the last statement of the question
  block and stands outside every \<open>try\<close>. With a first chat file that cannot be written,
  the run of \<open>main\<close> on a question ends by raising \<open>PermissionError\<close>; the exchange
  appended to the chat memory before is still there; no \<open>st.error\<close> was called, and
  the failed open is the last thing the run did. So the first half of the claim holds on
  this input and the second half does not: the failure is not turned into a warning, it
  leaves \<open>main\<close> as an exception.
\<close>

theorem log_append_failure_escapes:
  "fst (main_chat_interface idle (Some ''Who directed Jaws?'') readonly_log_world)
     = Inl PermissionError \<and>
   chat_memory (snd (main_chat_interface idle (Some ''Who directed Jaws?'') readonly_log_world))
     = Some [\<lparr>question = ''Who directed Jaws?'', answer = fallback_message\<rparr>] \<and>
   \<not> list_ex shown_error
       (events (snd (main_chat_interface idle (Some ''Who directed Jaws?'') readonly_log_world))) \<and>
   last (events (snd (main_chat_interface idle (Some ''Who directed Jaws?'') readonly_log_world)))
     = OpenAppend ''conversations/chathistory_0.txt'' (''Who directed Jaws?'' @ [LF])
         (Some PermissionError)"
  by code_simp

section \<open>No stale value after a consumed exchange\<close>

text \<open>
  Claim C3. After an exchange whose response was consumed, writing the request for any
  payload \<open>P\<close> and reading the response slot at once, before the engine has written
  anything, yields no value. The same holds for a whole call: while the engine leaves
  the slot alone, the next call of \<open>communicate_with_scala\<close> reads only the empty text
  from the slot and returns the fallback message, never the value consumed before.
\<close>

theorem no_stale_value_after_consumption:
  assumes "read_output w0 = (Inr (Some v), w1)"
  shows "fst (read_output (snd (write_file input_file (P @ [LF]) w1))) = Inr None \<and>
         fst (communicate_with_scala idle P w1) = fallback_message \<and>
         (\<forall>body. OpenRead output_file (Inr body) \<in>
                   set (drop (length (events w1)) (events (snd (communicate_with_scala idle P w1))))
                 \<longrightarrow> body = [])"
proof -
  obtain x w2 where wr: "write_file input_file (P @ [LF]) w1 = (x, w2)"
    by (cases "write_file input_file (P @ [LF]) w1")
  from read_output_consumed[OF assms] have g1: "fs_get (fs w1) output_file = Inr []"
    by (simp add: fs_get_cleared)
  have "fs_get (fs w2) output_file = fs_get (fs w1) output_file"
    by (rule fs_get_cong_map_of) (simp add: strip_sep_output_file write_input_keeps_output[OF wr])
  with g1 have g2: "fs_get (fs w2) output_file = Inr []"
    by simp
  have first: "fst (read_output (snd (write_file input_file (P @ [LF]) w1))) = Inr None"
    using read_output_no_value[OF g2 strip_Nil] wr by simp
  have ev2: "\<exists>c. events w2 = events w1 @ [OpenWrite input_file (P @ [LF]) c]"
    using wr by (auto simp: write_file_def emit_def split: sum.splits)
  have rest: "fst (communicate_with_scala idle P w1) = fallback_message \<and>
         (\<forall>body. OpenRead output_file (Inr body) \<in>
                   set (drop (length (events w1)) (events (snd (communicate_with_scala idle P w1))))
                 \<longrightarrow> body = [])"
  proof (cases x)
    case (Inl e)
    with wr ev2 show ?thesis
      by (auto simp: communicate_with_scala_def st_error_def emit_fields)
  next
    case (Inr u)
    obtain r w3 where run: "retry_loop idle [0..<max_retries] w2 = (r, w3)"
      by (cases "retry_loop idle [0..<max_retries] w2")
    from retry_loop_idle_empty[OF g2 run] have
      r: "r = fallback_message" and
      b: "\<forall>body. OpenRead output_file (Inr body) \<in> set (drop (length (events w2)) (events w3))
            \<longrightarrow> body = []"
      by auto
    from retry_loop_trace[OF run] obtain more where ev3: "events w3 = events w2 @ more"
      by auto
    from ev2 obtain c where e: "events w2 = events w1 @ [OpenWrite input_file (P @ [LF]) c]"
      by auto
    with ev3 b have
      "\<forall>body. OpenRead output_file (Inr body) \<in> set (drop (length (events w1)) (events w3))
            \<longrightarrow> body = []"
      by auto
    with r run wr Inr show ?thesis
      by (simp add: communicate_with_scala_def)
  qed
  from first rest show ?thesis
    by simp
qed

text \<open>The sample world again: its answer is consumed, then a new question is sent.\<close>

theorem no_stale_value_after_consumption_witness:
  "read_output demo_world = (Inr (Some ''Jaws (1975)''), snd (read_output demo_world)) \<and>
   fst (read_output (snd (write_file input_file (''Who directed Jaws?'' @ [LF])
          (snd (read_output demo_world))))) = Inr None \<and>
   fst (communicate_with_scala idle ''Who directed Jaws?'' (snd (read_output demo_world)))
     = fallback_message"
proof -
  have h: "read_output demo_world = (Inr (Some ''Jaws (1975)''), snd (read_output demo_world))"
    by code_simp
  from no_stale_value_after_consumption[OF h, of "''Who directed Jaws?''"] h
  show ?thesis
    by simp
qed

section \<open>Consuming a response clears the slot\<close>

text \<open>
  Claim C4. When one read of the response slot (the body of the inner \<open>try\<close>) hands
  back a value, the value is not empty and the slot has been cleared with it: the slot
  then reads as the empty text, and a second read right after hands back no value and
  changes no file. When the slot holds the empty text, or only white space, the read
  hands back no value, raises nothing and changes no file.
\<close>

theorem read_output_clears_slot:
  "(read_output w = (Inr (Some v), w1) \<longrightarrow>
      v \<noteq> [] \<and> fs_get (fs w1) output_file = Inr [] \<and>
      fst (read_output w1) = Inr None \<and> fs (snd (read_output w1)) = fs w1) \<and>
   (fs_get (fs u) output_file = Inr body \<and> strip body = [] \<longrightarrow>
      fst (read_output u) = Inr None \<and> fs (snd (read_output u)) = fs u)"
proof (intro conjI impI)
  assume a: "read_output w = (Inr (Some v), w1)"
  from read_output_consumed[OF a] show "v \<noteq> []"
    by simp
  from read_output_consumed[OF a] show g: "fs_get (fs w1) output_file = Inr []"
    by (simp add: fs_get_cleared)
  from read_output_no_value[OF g strip_Nil]
  show "fst (read_output w1) = Inr None" "fs (snd (read_output w1)) = fs w1"
    by (simp_all add: emit_fields)
next
  assume b: "fs_get (fs u) output_file = Inr body \<and> strip body = []"
  then have "read_output u = (Inr None, emit (OpenRead output_file (Inr body)) u)"
    by (simp add: read_output_no_value)
  then show "fst (read_output u) = Inr None" "fs (snd (read_output u)) = fs u"
    by (simp_all add: emit_fields)
qed

text \<open>The sample world: the slot holds an answer, which the first read consumes.\<close>

theorem read_output_clears_slot_witness:
  "read_output demo_world = (Inr (Some ''Jaws (1975)''), snd (read_output demo_world)) \<and>
   fs_get (fs (snd (read_output demo_world))) output_file = Inr [] \<and>
   strip [] = [] \<and>
   fst (read_output (snd (read_output demo_world))) = Inr None \<and>
   fs (snd (read_output (snd (read_output demo_world)))) = fs (snd (read_output demo_world))"
proof -
  have h: "read_output demo_world = (Inr (Some ''Jaws (1975)''), snd (read_output demo_world))"
    by code_simp
  from read_output_clears_slot[of demo_world "''Jaws (1975)''" "snd (read_output demo_world)"
      "snd (read_output demo_world)" "[]"] h
  show ?thesis
    by (simp add: strip_Nil)
qed

section \<open>A question the engine never answers\<close>



section \<open>The store set-up is idempotent\<close>

text \<open>
  Claim C6. Whatever the store set-up of \<open>main\<close> does, every path that existed before
  it still has the node it had: a directory, a tracker or a chat file that is there is
  neither made again nor written over. When a run of the set-up ends without raising and
  gives the name \<open>cur\<close>, a second run right after gives the same name, leaves every file
  as it is, and does nothing but read the tracker.
\<close>

theorem init_store_idempotent:
  "preserved (fs w) (fs (snd (init_store w))) \<and>
   (init_store w = (Inr cur, w1) \<longrightarrow>
      (\<exists>body. init_store w1 = (Inr cur, emit (OpenRead current_chat_file (Inr body)) w1)) \<and>
      fs (snd (init_store w1)) = fs w1)"
proof (intro conjI impI)
  show "preserved (fs w) (fs (snd (init_store w)))"
    by (rule init_store_preserved)
next
  assume run: "init_store w = (Inr cur, w1)"
  from init_store_makes_ready[OF run] obtain body where
    ready: "store_ready (fs w1)" and
    g: "fs_get (fs w1) current_chat_file = Inr body" and cur: "cur = strip (readline body)"
    by blast
  from init_store_ready[OF ready] g cur
  have again: "init_store w1 = (Inr cur, emit (OpenRead current_chat_file (Inr body)) w1)"
    by (simp add: get_current_chat_eq)
  then show "\<exists>body. init_store w1 = (Inr cur, emit (OpenRead current_chat_file (Inr body)) w1)"
    by blast
  from again show "fs (snd (init_store w1)) = fs w1"
    by (simp add: emit_fields)
qed

text \<open>The bare world: the first run makes the store, the second changes nothing.\<close>

theorem init_store_idempotent_witness:
  "init_store bare_world = (Inr ''chathistory_0.txt'', snd (init_store bare_world)) \<and>
   fst (init_store (snd (init_store bare_world))) = Inr ''chathistory_0.txt'' \<and>
   fs (snd (init_store (snd (init_store bare_world)))) = fs (snd (init_store bare_world)) \<and>
   fs (snd (init_store bare_world)) =
     [([], Dir True), (''conversations'', Dir True),
      (''conversations/currentchat.txt'', File True True ''chathistory_0.txt''),
      (''conversations/chathistory_0.txt'', File True True [])] \<and>
   preserved (fs bare_world) (fs (snd (init_store bare_world)))"
proof -
  have h: "init_store bare_world = (Inr ''chathistory_0.txt'', snd (init_store bare_world))"
    by code_simp
  have f: "fs (snd (init_store bare_world)) =
     [([], Dir True), (''conversations'', Dir True),
      (''conversations/currentchat.txt'', File True True ''chathistory_0.txt''),
      (''conversations/chathistory_0.txt'', File True True [])]"
    by code_simp
  from init_store_idempotent[of bare_world "''chathistory_0.txt''" "snd (init_store bare_world)"] h
  have "fst (init_store (snd (init_store bare_world))) = Inr ''chathistory_0.txt''"
    "fs (snd (init_store (snd (init_store bare_world)))) = fs (snd (init_store bare_world))"
    "preserved (fs bare_world) (fs (snd (init_store bare_world)))"
    by auto
  with h f show ?thesis
    by simp
qed

section \<open>Conversation files only grow\<close>

text \<open>
  Claim C7. A run of the chat interface of \<open>main\<close>, with any engine and any input,
  whether it ends or raises, leaves every regular file other than the two slots in place
  with its old contents a prefix of the new: nothing written earlier is changed or moved.
  When the question block ends without raising, the current conversation file holds
  what it held before followed by the question and a line feed, so the old contents are
  a strict prefix of the new.
\<close>

theorem conversation_log_append_only:
  "append_only (fs w) (fs (snd (main_chat_interface env uq w))) \<and>
   (chat_memory w = Some m \<and> q \<noteq> [] \<and> handle_question env (Some q) cur w = (Inr (), w') \<longrightarrow>
      log_text (fs w') (conversations_dir @ cur) =
        log_text (fs w) (conversations_dir @ cur) @ q @ [LF] \<and>
      strict_prefix (log_text (fs w) (conversations_dir @ cur))
        (log_text (fs w') (conversations_dir @ cur)))"
proof (intro conjI impI)
  show "append_only (fs w) (fs (snd (main_chat_interface env uq w)))"
    by (rule main_chat_interface_append_only)
next
  assume h: "chat_memory w = Some m \<and> q \<noteq> [] \<and>
    handle_question env (Some q) cur w = (Inr (), w')"
  then have "chat_memory w = Some m" "q \<noteq> []"
    "handle_question env (Some q) cur w = (Inr (), w')"
    by simp_all
  then have "\<exists>r wr. stat (fs w') (conversations_dir @ cur) =
           Inr (File r wr (log_text (fs w) (conversations_dir @ cur) @ q @ [LF]))"
    by (rule question_block_appends)
  then show eq: "log_text (fs w') (conversations_dir @ cur) =
        log_text (fs w) (conversations_dir @ cur) @ q @ [LF]"
    by (auto simp: log_text_def)
  show "strict_prefix (log_text (fs w) (conversations_dir @ cur))
        (log_text (fs w') (conversations_dir @ cur))"
    unfolding eq by (simp add: strict_prefix_def)
qed

text \<open>The quiet world: one earlier question in the file, one more after the run.\<close>

theorem conversation_log_append_only_witness:
  "chat_memory quiet_world = Some [] \<and>
   handle_question idle (Some ''Who directed Jaws?'') ''chathistory_0.txt'' quiet_world =
     (Inr (), snd (handle_question idle (Some ''Who directed Jaws?'') ''chathistory_0.txt'' quiet_world)) \<and>
   log_text (fs quiet_world) (conversations_dir @ ''chathistory_0.txt'') = ''What is Jaws?'' @ [LF] \<and>
   log_text (fs (snd (handle_question idle (Some ''Who directed Jaws?'') ''chathistory_0.txt'' quiet_world)))
       (conversations_dir @ ''chathistory_0.txt'')
     = ''What is Jaws?'' @ [LF] @ ''Who directed Jaws?'' @ [LF] \<and>
   append_only (fs quiet_world)
     (fs (snd (main_chat_interface idle (Some ''Who directed Jaws?'') quiet_world)))"
proof -
  let ?W = "snd (handle_question idle (Some ''Who directed Jaws?'') ''chathistory_0.txt'' quiet_world)"
  have mem: "chat_memory quiet_world = Some []"
    by (simp add: quiet_world_def)
  have run: "handle_question idle (Some ''Who directed Jaws?'') ''chathistory_0.txt'' quiet_world
      = (Inr (), ?W)"
    by code_simp
  have before: "log_text (fs quiet_world) (conversations_dir @ ''chathistory_0.txt'')
      = ''What is Jaws?'' @ [LF]"
    by code_simp
  from conversation_log_append_only[of quiet_world idle "Some ''Who directed Jaws?''" "[]"
      "''Who directed Jaws?''" "''chathistory_0.txt''" ?W] mem run before
  show ?thesis
    by simp
qed

section \<open>A failed request write\<close>



section \<open>The result is never empty\<close>

text \<open>
  Claim C9. For every input, every engine and every world, the string that
  \<open>communicate_with_scala\<close> returns is not empty: it is the fallback message, or the
  stripped text of a read of the response slot made during this call.
\<close>

theorem communicate_with_scala_nonempty:
  "fst (communicate_with_scala env user_input w) \<noteq> [] \<and>
   (fst (communicate_with_scala env user_input w) = fallback_message \<or>
    (\<exists>body. OpenRead output_file (Inr body) \<in>
              set (drop (length (events w)) (events (snd (communicate_with_scala env user_input w)))) \<and>
            fst (communicate_with_scala env user_input w) = strip body))"
proof -
  obtain x w1 where wr: "write_file input_file (user_input @ [LF]) w = (x, w1)"
    by (cases "write_file input_file (user_input @ [LF]) w")
  show ?thesis
  proof (cases x)
    case (Inl e)
    with wr show ?thesis
      by (simp add: communicate_with_scala_def fallback_message_nonempty)
  next
    case (Inr u)
    obtain r w' where run: "retry_loop env [0..<max_retries] w1 = (r, w')"
      by (cases "retry_loop env [0..<max_retries] w1")
    from write_file_ok[OF wr[unfolded Inr]] have ev1:
      "events w1 = events w @ [OpenWrite input_file (user_input @ [LF]) None]"
      by (auto simp: emit_fields)
    from retry_loop_trace[OF run] obtain more where ev2: "events w' = events w1 @ more"
      by blast
    from retry_loop_result[OF run] have r: "r \<noteq> []" and
      alt: "r = fallback_message \<or>
        (\<exists>body. OpenRead output_file (Inr body) \<in> set (drop (length (events w1)) (events w')) \<and>
           r = strip body)"
      by auto
    from ev1 ev2 have "set (drop (length (events w1)) (events w')) \<subseteq>
        set (drop (length (events w)) (events w'))"
      by auto
    with alt have "r = fallback_message \<or>
        (\<exists>body. OpenRead output_file (Inr body) \<in> set (drop (length (events w)) (events w')) \<and>
           r = strip body)"
      by blast
    with r run wr Inr show ?thesis
      by (simp add: communicate_with_scala_def)
  qed
qed

text \<open>One call that gets an answer and one that falls back.\<close>

theorem communicate_with_scala_nonempty_witness:
  "fst (communicate_with_scala idle ''What is Jaws?'' demo_world) = ''Jaws (1975)'' \<and>
   fst (communicate_with_scala idle ''What is Jaws?'' bare_world) = fallback_message \<and>
   fst (communicate_with_scala idle ''What is Jaws?'' demo_world) \<noteq> [] \<and>
   fst (communicate_with_scala idle ''What is Jaws?'' bare_world) \<noteq> []"
proof -
  have "fst (communicate_with_scala idle ''What is Jaws?'' demo_world) = ''Jaws (1975)''"
    "fst (communicate_with_scala idle ''What is Jaws?'' bare_world) = fallback_message"
    by code_simp+
  with communicate_with_scala_nonempty[of idle "''What is Jaws?''" demo_world]
    communicate_with_scala_nonempty[of idle "''What is Jaws?''" bare_world]
  show ?thesis
    by simp
qed

section \<open>The timeout path leaves the response slot alone\<close>

text \<open>
  Claim C10. When no read of a call of \<open>communicate_with_scala\<close> saw a response, the
  call made no write to the response slot and returned the fallback message. Its whole
  effect on the files is the request write followed by the steps of the engine, one per
  pass; when the request write failed, no file changed. So a response that the engine
  writes after the call is still in the slot for the next call: when the engine leaves
  the slot alone during the first sleep of that call, the call returns the stripped
  response.
\<close>

theorem timeout_path_leaves_slot:
  assumes run: "communicate_with_scala env u w = (r, w')"
    and quiet: "\<forall>e\<in>set (new_events w w'). \<not> saw_response e"
  shows "(\<forall>e\<in>set (new_events w w'). \<not> wrote_output e) \<and> r = fallback_message \<and>
     (case fs_put False (fs w) input_file (u @ [LF]) of
        Inl e \<Rightarrow> fs w' = fs w
      | Inr f1 \<Rightarrow>
          fs w' = fold (engine_step env) [0..<max_retries] f1 \<and>
          (\<forall>late env2 u2.
             strip (universal_newlines late) \<noteq> [] \<and> (\<forall>f. env2 0 f = map_of f output_file) \<longrightarrow>
             fst (communicate_with_scala env2 u2
                    (w'\<lparr>fs := AList.update output_file (File True True late) (fs w')\<rparr>))
               = strip (universal_newlines late)))"
proof -
  obtain x w1 where wr: "write_file input_file (u @ [LF]) w = (x, w1)"
    by (cases "write_file input_file (u @ [LF]) w")
  show ?thesis
  proof (cases x)
    case (Inl e)
    from write_file_failed[OF wr[unfolded Inl]] have
      put: "fs_put False (fs w) input_file (u @ [LF]) = Inl e" and
      w1: "w1 = emit (OpenWrite input_file (u @ [LF]) (Some e)) w"
      by simp_all
    from wr Inl run have r: "r = fallback_message" and
      w': "w' = st_error ''Error communicating with backend: '' e w1"
      by (auto simp: communicate_with_scala_def)
    from w' w1 have "fs w' = fs w" and
      "new_events w w' = [OpenWrite input_file (u @ [LF]) (Some e),
          StError ''Error communicating with backend: '' e]"
      by (simp_all add: st_error_def emit_fields new_events_def)
    with r put show ?thesis
      using input_file_neq_output_file by (simp add: wrote_output_def)
  next
    case (Inr v)
    from write_file_ok[OF wr[unfolded Inr]] obtain f1 rd where
      put: "fs_put False (fs w) input_file (u @ [LF]) = Inr f1" and
      w1: "w1 = emit (OpenWrite input_file (u @ [LF]) None) (w\<lparr>fs := f1\<rparr>)" and
      st: "stat f1 input_file = Inr (File rd True (u @ [LF]))"
      by blast
    from wr Inr run have loop: "retry_loop env [0..<max_retries] w1 = (r, w')"
      by (simp add: communicate_with_scala_def)
    from retry_loop_extends[OF loop] obtain xs where xs: "events w' = events w1 @ xs"
      by blast
    with w1 have n: "new_events w w' = OpenWrite input_file (u @ [LF]) None # xs"
      and n1: "new_events w1 w' = xs"
      by (simp_all add: new_events_def emit_fields)
    with quiet have q1: "\<forall>e\<in>set (new_events w1 w'). \<not> saw_response e"
      by simp
    have "max_retries - 1 \<notin> set (butlast [0..<max_retries])"
      by (simp add: max_retries_def numeral_3_eq_3)
    from retry_loop_quiet[OF loop this q1] w1 have
      r: "r = fallback_message" and
      f: "fs w' = fold (engine_step env) [0..<max_retries] f1" and
      nw: "\<forall>e\<in>set (new_events w1 w'). \<not> wrote_output e"
      by (simp_all add: emit_fields)
    from nw n n1 have nw': "\<forall>e\<in>set (new_events w w'). \<not> wrote_output e"
      using input_file_neq_output_file by (simp add: wrote_output_def)
    from retry_loop_frame[OF loop] input_file_neq_output_file w1
    have "map_of (fs w') input_file = map_of f1 input_file"
      by (simp add: emit_fields)
    with st have req: "map_of (fs w') input_file = Some (File rd True (u @ [LF]))"
      by (simp add: stat_File_map_of)
    have next_call: "fst (communicate_with_scala env2 u2
                    (w'\<lparr>fs := AList.update output_file (File True True late) (fs w')\<rparr>))
               = strip (universal_newlines late)"
      if "strip (universal_newlines late) \<noteq> []" "\<forall>f. env2 0 f = map_of f output_file"
      for late env2 u2
    proof -
      let ?w2 = "w'\<lparr>fs := AList.update output_file (File True True late) (fs w')\<rparr>"
      have a: "map_of (fs ?w2) input_file = Some (File rd True (u @ [LF]))"
        using req input_file_neq_output_file by (simp add: update_conv')
      have b: "map_of (fs ?w2) output_file = Some (File True True late)"
        by (simp add: update_conv')
      from a b that show ?thesis
        by (rule late_response_observed)
    qed
    from nw' r f put next_call show ?thesis
      by simp
  qed
qed

text \<open>
  The quiet world: the call times out; a late answer is then put into the slot and the
  next call returns it.
\<close>

theorem timeout_path_leaves_slot_witness:
  "communicate_with_scala idle ''Who directed Jaws?'' quiet_world =
     (fallback_message, snd (communicate_with_scala idle ''Who directed Jaws?'' quiet_world)) \<and>
   list_all (\<lambda>e. \<not> saw_response e)
     (new_events quiet_world (snd (communicate_with_scala idle ''Who directed Jaws?'' quiet_world))) \<and>
   list_all (\<lambda>e. \<not> wrote_output e)
     (new_events quiet_world (snd (communicate_with_scala idle ''Who directed Jaws?'' quiet_world))) \<and>
   fst (communicate_with_scala idle ''And who wrote it?''
          ((snd (communicate_with_scala idle ''Who directed Jaws?'' quiet_world))
             \<lparr>fs := AList.update output_file (File True True ''Steven Spielberg'')
                     (fs (snd (communicate_with_scala idle ''Who directed Jaws?'' quiet_world)))\<rparr>))
     = ''Steven Spielberg''"
proof -
  let ?W = "snd (communicate_with_scala idle ''Who directed Jaws?'' quiet_world)"
  have h: "communicate_with_scala idle ''Who directed Jaws?'' quiet_world = (fallback_message, ?W)"
    by code_simp
  have q: "list_all (\<lambda>e. \<not> saw_response e) (new_events quiet_world ?W)"
    by code_simp
  then have q': "\<forall>e\<in>set (new_events quiet_world ?W). \<not> saw_response e"
    by (simp add: list_all_iff)
  have "\<not> isl (fs_put False (fs quiet_world) input_file (''Who directed Jaws?'' @ [LF]))"
    by code_simp
  then obtain f1 where
    ok: "fs_put False (fs quiet_world) input_file (''Who directed Jaws?'' @ [LF]) = Inr f1"
    by (cases "fs_put False (fs quiet_world) input_file (''Who directed Jaws?'' @ [LF])") auto
  have s: "strip (universal_newlines ''Steven Spielberg'') = ''Steven Spielberg''"
    by code_simp
  have i: "\<forall>f. idle 0 f = map_of f output_file"
    by (simp add: idle_def)
  from timeout_path_leaves_slot[OF h q'] ok s i h q show ?thesis
    by (auto simp: list_all_iff)
qed

end
